theory Spec2Isabelle
  imports
    Main
    "HOL-Library.Sublist"
    "HOL-Library.Char_ord"
    "HOL-Library.List_Lexorder"
    "HOL-Library.Multiset"
    "HOL-Library.Word"
begin

section \<open>Library functions used by the store\<close>

text \<open>
  Go strings and byte slices are sequences of bytes; both are modelled as \<open>string\<close>
  (a list of 8-bit characters), so \<open>[]byte(s)\<close> and \<open>string(b)\<close> are the identity.
\<close>

type_synonym bytes = string

subsection \<open>encoding/base64, URLEncoding (padded, not strict)\<close>

definition encodeURL :: string where
  "encodeURL = ''ABCDEFGHIJKLMNOPQRSTUVWXYZabcdefghijklmnopqrstuvwxyz0123456789-_''"

definition padChar :: char where
  "padChar = CHR ''=''"

definition enc6 :: "nat \<Rightarrow> char" where
  "enc6 v = encodeURL ! (v mod 64)"

definition decodeMap :: "char \<Rightarrow> nat option" where
  "decodeMap c = map_of (zip encodeURL [0..<64]) c"

text \<open>
  \<open>EncodeToString\<close>: three input bytes give four characters; a remainder of one or two
  bytes gives two or three characters and padding. The 24-bit value
  \<open>a<<16 | b<<8 | c\<close> is written as a sum, and \<open>val>>n & 0x3F\<close> as
  \<open>val div 2^n mod 64\<close> (the \<open>mod 64\<close> is inside \<open>enc6\<close>).
\<close>

fun EncodeToString :: "bytes \<Rightarrow> string" where
  "EncodeToString [] = []"
| "EncodeToString [a] =
     (let val = of_char a * 65536
      in [enc6 (val div 262144), enc6 (val div 4096), padChar, padChar])"
| "EncodeToString [a, b] =
     (let val = of_char a * 65536 + of_char b * 256
      in [enc6 (val div 262144), enc6 (val div 4096), enc6 (val div 64), padChar])"
| "EncodeToString (a # b # c # rest) =
     (let val = of_char a * 65536 + of_char b * 256 + of_char c
      in [enc6 (val div 262144), enc6 (val div 4096), enc6 (val div 64), enc6 val]
         @ EncodeToString rest)"

text \<open>
  \<open>DecodeString\<close> ignores carriage returns and line feeds, then reads quanta of four
  characters. Padding is accepted only in the last quantum (\<open>xx==\<close> or \<open>xxx=\<close>),
  nothing may follow it, and an incomplete quantum is an error (\<open>None\<close>). The
  encoding is not strict: the unused low bits of a padded quantum are not checked.
\<close>

fun decodeQuanta :: "string \<Rightarrow> bytes option" where
  "decodeQuanta [] = Some []"
| "decodeQuanta (a # b # c # d # rest) =
     (case (decodeMap a, decodeMap b) of
        (Some v0, Some v1) \<Rightarrow>
          if c = padChar then
            (if d = padChar \<and> rest = []
             then Some [char_of ((v0 * 262144 + v1 * 4096) div 65536)]
             else None)
          else
            (case decodeMap c of
               None \<Rightarrow> None
             | Some v2 \<Rightarrow>
                 if d = padChar then
                   (if rest = []
                    then (let val = v0 * 262144 + v1 * 4096 + v2 * 64
                          in Some [char_of (val div 65536), char_of (val div 256)])
                    else None)
                 else
                   (case decodeMap d of
                      None \<Rightarrow> None
                    | Some v3 \<Rightarrow>
                        (let val = v0 * 262144 + v1 * 4096 + v2 * 64 + v3
                         in map_option
                              (\<lambda>bs. char_of (val div 65536) # char_of (val div 256) # char_of val # bs)
                              (decodeQuanta rest))))
      | _ \<Rightarrow> None)"
| "decodeQuanta _ = None"

definition isNewline :: "char \<Rightarrow> bool" where
  "isNewline c = (c = CHR 0x0A \<or> c = CHR 0x0D)"

definition DecodeString :: "string \<Rightarrow> bytes option" where
  "DecodeString s = decodeQuanta (filter (\<lambda>c. \<not> isNewline c) s)"

subsection \<open>strings and path/filepath\<close>

definition strings_TrimSuffix :: "string \<Rightarrow> string \<Rightarrow> string" where
  "strings_TrimSuffix s suf = (if suffix suf s then take (length s - length suf) s else s)"

text \<open>\<open>strings.SplitN(s, "|", 2)\<close>: one part when \<open>s\<close> has no separator, otherwise the
  text before the first separator and everything after it.\<close>

definition strings_SplitN2 :: "string \<Rightarrow> string list" where
  "strings_SplitN2 s =
     (case dropWhile (\<lambda>c. c \<noteq> CHR ''|'') s of
        [] \<Rightarrow> [s]
      | _ # after \<Rightarrow> [takeWhile (\<lambda>c. c \<noteq> CHR ''|'') s, after])"

text \<open>\<open>filepath.Join\<close> of a directory and a file name. The data directory is taken to be
  a clean, non-empty path, so that joining is concatenation around one separator.\<close>

definition filepath_Join :: "string \<Rightarrow> string \<Rightarrow> string" where
  "filepath_Join dir name = dir @ ''/'' @ name"

definition filepath_Base :: "string \<Rightarrow> string" where
  "filepath_Base p =
     (if p = [] then ''.''
      else (let q = dropWhile (\<lambda>c. c = CHR ''/'') (rev p)
            in if q = [] then ''/'' else rev (takeWhile (\<lambda>c. c \<noteq> CHR ''/'') q)))"

subsection \<open>encoding/binary, little endian, and time\<close>

definition PutUint64 :: "64 word \<Rightarrow> bytes" where
  "PutUint64 v = map (\<lambda>i. char_of (unat v div 256 ^ i)) [0..<8]"

definition Uint64 :: "bytes \<Rightarrow> 64 word" where
  "Uint64 b = word_of_nat (horner_sum of_char (256 :: nat) (take 8 b))"

text \<open>Instants are Unix nanoseconds (\<open>int\<close>); a \<open>time.Duration\<close> is a signed 64-bit
  count of nanoseconds, and \<open>Time.Sub\<close> (hence \<open>time.Since\<close>) saturates.\<close>

definition Hour :: int where
  "Hour = 3600 * 1000000000"

definition Second :: int where
  "Second = 1000000000"

definition maxDuration :: int where
  "maxDuration = 2 ^ 63 - 1"

definition minDuration :: int where
  "minDuration = - (2 ^ 63)"

definition time_Since :: "int \<Rightarrow> int \<Rightarrow> int" where
  "time_Since current t = max minDuration (min maxDuration (current - t))"

text \<open>\<open>uint64(t.UnixNano())\<close> and \<open>time.Unix(0, int64(u))\<close>.\<close>

definition UnixNano_u64 :: "int \<Rightarrow> 64 word" where
  "UnixNano_u64 t = word_of_int t"

definition time_Unix_nano :: "64 word \<Rightarrow> int" where
  "time_Unix_nano u = sint u"


subsection \<open>The file system, the clock and I/O failures\<close>

text \<open>
  The outside world of one call: the files (path and content), the reading of
  \<open>time.Now()\<close> (one reading serves a whole store operation), and which system calls
  fail. Every \<open>if err != nil\<close> of the source is a branch decided by \<open>fails\<close>.
\<close>

datatype syscall =
    SysMkdirAll | SysGlob | SysStat | SysOpenRead | SysReadTimestamp | SysReadFilter
  | SysOpenTemp | SysWriteTimestamp | SysWriteFilter | SysSync | SysClose | SysRename

record world =
  files :: "(string \<times> bytes) list"
  now :: int
  fails :: "syscall \<Rightarrow> string \<Rightarrow> bool"

definition readFile :: "world \<Rightarrow> string \<Rightarrow> bytes option" where
  "readFile w p = map_of (files w) p"

definition writeFile :: "world \<Rightarrow> string \<Rightarrow> bytes \<Rightarrow> world" where
  "writeFile w p c = w\<lparr>files := (p, c) # filter (\<lambda>e. fst e \<noteq> p) (files w)\<rparr>"

definition renameFile :: "world \<Rightarrow> string \<Rightarrow> string \<Rightarrow> world" where
  "renameFile w old new =
     (case readFile w old of
        None \<Rightarrow> w
      | Some c \<Rightarrow> w\<lparr>files := (new, c) # filter (\<lambda>e. fst e \<noteq> old \<and> fst e \<noteq> new) (files w)\<rparr>)"

text \<open>\<open>filepath.Glob(filepath.Join(dir, "*" + suffix))\<close>: the paths of the files directly
  in \<open>dir\<close> whose name ends with the suffix, sorted.\<close>

definition globMatch :: "string \<Rightarrow> string \<Rightarrow> string \<Rightarrow> bool" where
  "globMatch dir suf p =
     (prefix (dir @ ''/'') p \<and>
      (let name = drop (length dir + 1) p
       in CHR ''/'' \<notin> set name \<and> suffix suf name))"

definition filepath_Glob :: "world \<Rightarrow> string \<Rightarrow> string \<Rightarrow> string list" where
  "filepath_Glob w dir suf = sort (remdups (filter (globMatch dir suf) (map fst (files w))))"

subsection \<open>The membership filter (github.com/bits-and-blooms/bloom/v3)\<close>

text \<open>
  The filter library is not part of the repository; the store uses it through five
  operations, which are a parameter of the model: the filter made by
  \<open>bloom.NewWithEstimates(expectedItems, falsePositive)\<close>, \<open>Test\<close>, \<open>Add\<close>,
  \<open>MarshalBinary\<close> and \<open>UnmarshalBinary\<close> (\<open>None\<close> is the error return).
\<close>

record 'f bloom =
  NewWithEstimates :: 'f
  Test :: "'f \<Rightarrow> bytes \<Rightarrow> bool"
  Add :: "'f \<Rightarrow> bytes \<Rightarrow> 'f"
  MarshalBinary :: "'f \<Rightarrow> bytes option"
  UnmarshalBinary :: "bytes \<Rightarrow> 'f option"

text \<open>
  What the store relies on, and what the library documents: an added element always
  tests positive, adding never removes an element, and a serialised filter is not empty
  and deserialises to a filter with the same members.
\<close>

definition bloom_ok :: "'f bloom \<Rightarrow> bool" where
  "bloom_ok B =
     ((\<forall>f x. Test B (Add B f x) x) \<and>
      (\<forall>f x y. Test B f y \<longrightarrow> Test B (Add B f x) y) \<and>
      (\<forall>f bs. MarshalBinary B f = Some bs \<longrightarrow>
          bs \<noteq> [] \<and> (\<exists>g. UnmarshalBinary B bs = Some g \<and> (\<forall>x. Test B g x = Test B f x))))"

text \<open>
  A Bloom filter proper: \<open>m\<close> bits, \<open>k\<close> positions per element given by a hash
  \<open>h\<close>, the bit array as the set of its set positions. It is the instance at which the
  results below are evaluated.
\<close>

definition positions :: "(bytes \<Rightarrow> nat \<Rightarrow> nat) \<Rightarrow> nat \<Rightarrow> nat \<Rightarrow> bytes \<Rightarrow> nat list" where
  "positions h m k x = map (\<lambda>i. h x i mod m) [0..<k]"

definition bitsBloom :: "(bytes \<Rightarrow> nat \<Rightarrow> nat) \<Rightarrow> nat \<Rightarrow> nat \<Rightarrow> (nat set) bloom" where
  "bitsBloom h m k =
     \<lparr> NewWithEstimates = {},
       Test = (\<lambda>S x. list_all (\<lambda>p. p \<in> S) (positions h m k x)),
       Add = (\<lambda>S x. S \<union> set (positions h m k x)),
       MarshalBinary = (\<lambda>S. Some (map (\<lambda>i. if i \<in> S then CHR ''1'' else CHR ''0'') [0..<m])),
       UnmarshalBinary = (\<lambda>bs. if length bs = m
                                then Some (set (filter (\<lambda>i. bs ! i = CHR ''1'') [0..<m]))
                                else None) \<rparr>"

text \<open>A world in which no system call fails.\<close>

definition noFaults :: "syscall \<Rightarrow> string \<Rightarrow> bool" where
  "noFaults c p = False"

definition lenHash :: "bytes \<Rightarrow> nat \<Rightarrow> nat" where
  "lenHash x i = length x + 3 * i"

definition smallBloom :: "(nat set) bloom" where
  "smallBloom = bitsBloom lenHash 8 2"

section \<open>The store (internal/storage/storage.go)\<close>

definition stateExpirationDuration :: int where
  "stateExpirationDuration = 30 * 24 * Hour"

definition bloomFileSuffix :: string where
  "bloomFileSuffix = ''.bloom''"

datatype error =
    MkdirAllError
  | GlobError
  | DecodingFilename string
  | LoadingState string string error
  | StatError
  | InvalidFileSize nat
  | OpenError
  | ReadTimestampError
  | NoFilterData
  | ReadFilterError
  | UnmarshalError
  | CreateTempError
  | WriteTimestampError
  | MarshalError
  | WriteFilterError
  | SyncError
  | CloseError
  | RenameError
  | SavingChannelState error
  | ParsingFeed string

record 'f ChannelState =
  filter_cs :: 'f
  updatedAt :: int

record 'f Storage =
  states :: "string \<rightharpoonup> (string \<rightharpoonup> 'f ChannelState)"
  dataDir :: string

definition GenerateBloomFileName :: "string \<Rightarrow> string \<Rightarrow> string" where
  "GenerateBloomFileName feedURL channel = EncodeToString (channel @ ''|'' @ feedURL)"

definition GetBloomFilePath :: "'f Storage \<Rightarrow> string \<Rightarrow> string \<Rightarrow> string" where
  "GetBloomFilePath s feedURL channel =
     filepath_Join (dataDir s) (GenerateBloomFileName feedURL channel @ bloomFileSuffix)"

definition IsItemSeen :: "'f bloom \<Rightarrow> 'f Storage \<Rightarrow> string \<Rightarrow> string \<Rightarrow> string \<Rightarrow> string \<Rightarrow> bool" where
  "IsItemSeen B s feedURL feedName channel itemID =
     (case states s feedURL of
        None \<Rightarrow> False
      | Some channelStates \<Rightarrow>
          (case channelStates channel of
             None \<Rightarrow> False
           | Some state \<Rightarrow> Test B (filter_cs state) itemID))"

text \<open>The bucket of a pair in the nested map, if there is one.\<close>

definition lookupState :: "'f Storage \<Rightarrow> string \<Rightarrow> string \<Rightarrow> 'f ChannelState option" where
  "lookupState s feedURL channel =
     (case states s feedURL of
        None \<Rightarrow> None
      | Some channelStates \<Rightarrow> channelStates channel)"

text \<open>
  \<open>saveChannelState\<close>: the temporary file is created, the timestamp and the filter are
  written, the file is synced and closed, then renamed over the bucket file. A step that
  fails returns its error and leaves the files as they are at that point.
\<close>

definition saveChannelState ::
  "'f bloom \<Rightarrow> world \<Rightarrow> 'f Storage \<Rightarrow> string \<Rightarrow> string \<Rightarrow> 'f ChannelState \<Rightarrow> error option \<times> world" where
  "saveChannelState B w s feedURL channel state =
     (let filepath = GetBloomFilePath s feedURL channel;
          tempFile = filepath @ ''.tmp''
      in if fails w SysOpenTemp tempFile then (Some CreateTempError, w)
         else
           (let w1 = writeFile w tempFile [];
                timeBytes = PutUint64 (UnixNano_u64 (now w))
            in if fails w SysWriteTimestamp tempFile then (Some WriteTimestampError, w1)
               else
                 (let w2 = writeFile w1 tempFile timeBytes
                  in case MarshalBinary B (filter_cs state) of
                       None \<Rightarrow> (Some MarshalError, w2)
                     | Some filterData \<Rightarrow>
                         if fails w SysWriteFilter tempFile then (Some WriteFilterError, w2)
                         else
                           (let w3 = writeFile w2 tempFile (timeBytes @ filterData)
                            in if fails w SysSync tempFile then (Some SyncError, w3)
                               else if fails w SysClose tempFile then (Some CloseError, w3)
                               else if fails w SysRename tempFile then (Some RenameError, w3)
                               else (None, renameFile w3 tempFile filepath)))))"

definition MarkItemSeen ::
  "'f bloom \<Rightarrow> world \<Rightarrow> 'f Storage \<Rightarrow> string \<Rightarrow> string \<Rightarrow> string \<Rightarrow> string
     \<Rightarrow> error option \<times> 'f Storage \<times> world" where
  "MarkItemSeen B w s feedURL feedName channel itemID =
     (let channelStates = (case states s feedURL of None \<Rightarrow> Map.empty | Some cs \<Rightarrow> cs);
          state = (case channelStates channel of
                     None \<Rightarrow> \<lparr>filter_cs = NewWithEstimates B, updatedAt = now w\<rparr>
                   | Some st \<Rightarrow> st);
          state' = \<lparr>filter_cs = Add B (filter_cs state) itemID, updatedAt = now w\<rparr>;
          s' = s\<lparr>states := (states s)(feedURL \<mapsto> channelStates(channel \<mapsto> state'))\<rparr>
      in case saveChannelState B w s' feedURL channel state' of
           (Some err, w') \<Rightarrow> (Some (SavingChannelState err), s', w')
         | (None, w') \<Rightarrow> (None, s', w'))"

text \<open>The state put in place when the bucket file is missing or expired: the feed's
  channel map is made anew and holds this channel only.\<close>

definition freshState :: "'f bloom \<Rightarrow> world \<Rightarrow> 'f Storage \<Rightarrow> string \<Rightarrow> string \<Rightarrow> 'f Storage" where
  "freshState B w s feedURL channel =
     s\<lparr>states := (states s)(feedURL \<mapsto>
          Map.empty(channel \<mapsto> \<lparr>filter_cs = NewWithEstimates B, updatedAt = now w\<rparr>))\<rparr>"

definition loadChannelState ::
  "'f bloom \<Rightarrow> world \<Rightarrow> 'f Storage \<Rightarrow> string \<Rightarrow> string \<Rightarrow> error + 'f Storage" where
  "loadChannelState B w s feedURL channel =
     (let filepath = GetBloomFilePath s feedURL channel
      in if fails w SysStat filepath then Inl StatError
         else
           (case readFile w filepath of
              None \<Rightarrow> Inr (freshState B w s feedURL channel)
            | Some content \<Rightarrow>
                if length content < 8 then Inl (InvalidFileSize (length content))
                else if fails w SysOpenRead filepath then Inl OpenError
                else if fails w SysReadTimestamp filepath then Inl ReadTimestampError
                else
                  (let timestamp = time_Unix_nano (Uint64 (take 8 content))
                   in if time_Since (now w) timestamp > stateExpirationDuration
                      then Inr (freshState B w s feedURL channel)
                      else if length content - 8 = 0 then Inl NoFilterData
                      else if fails w SysReadFilter filepath then Inl ReadFilterError
                      else
                        (case UnmarshalBinary B (drop 8 content) of
                           None \<Rightarrow> Inl UnmarshalError
                         | Some flt \<Rightarrow>
                             (let channelStates =
                                    (case states s feedURL of None \<Rightarrow> Map.empty | Some cs \<Rightarrow> cs)
                              in Inr (s\<lparr>states := (states s)(feedURL \<mapsto>
                                        channelStates(channel \<mapsto>
                                          \<lparr>filter_cs = flt, updatedAt = timestamp\<rparr>))\<rparr>))))))"

text \<open>The loop of \<open>NewStorage\<close> over the bucket files.\<close>

fun loadFiles :: "'f bloom \<Rightarrow> world \<Rightarrow> 'f Storage \<Rightarrow> string list \<Rightarrow> error + 'f Storage" where
  "loadFiles B w s [] = Inr s"
| "loadFiles B w s (file # rest) =
     (let filename = filepath_Base file;
          encoded = strings_TrimSuffix filename bloomFileSuffix
      in case DecodeString encoded of
           None \<Rightarrow> Inl (DecodingFilename filename)
         | Some decoded \<Rightarrow>
             (case strings_SplitN2 decoded of
                [channel, feedURL] \<Rightarrow>
                  (case loadChannelState B w s feedURL channel of
                     Inl err \<Rightarrow> Inl (LoadingState feedURL channel err)
                   | Inr s' \<Rightarrow> loadFiles B w s' rest)
              | _ \<Rightarrow> loadFiles B w s rest))"

definition NewStorage :: "'f bloom \<Rightarrow> world \<Rightarrow> string \<Rightarrow> error + 'f Storage" where
  "NewStorage B w dir =
     (if fails w SysMkdirAll dir then Inl MkdirAllError
      else if fails w SysGlob dir then Inl GlobError
      else loadFiles B w \<lparr>states = Map.empty, dataDir = dir\<rparr>
             (filepath_Glob w dir bloomFileSuffix))"

definition zeroTime :: int where
  "zeroTime = - 62135596800 * Second"

definition GetLastUpdated :: "'f Storage \<Rightarrow> string \<Rightarrow> string \<Rightarrow> int" where
  "GetLastUpdated s feedURL channel =
     (case states s feedURL of
        None \<Rightarrow> zeroTime
      | Some channelStates \<Rightarrow>
          (case channelStates channel of
             None \<Rightarrow> zeroTime
           | Some state \<Rightarrow> updatedAt state))"


text \<open>
  A process lifetime after start-up is a sequence of \<open>MarkItemSeen\<close> calls (nothing else
  changes the store). Each call comes with its own clock reading and its own I/O
  failures; the files are those the previous call left.
\<close>

record markCall =
  mc_now :: int
  mc_fails :: "syscall \<Rightarrow> string \<Rightarrow> bool"
  mc_feedURL :: string
  mc_feedName :: string
  mc_channel :: string
  mc_itemID :: string

fun markAll :: "'f bloom \<Rightarrow> world \<Rightarrow> 'f Storage \<Rightarrow> markCall list \<Rightarrow> 'f Storage \<times> world" where
  "markAll B w s [] = (s, w)"
| "markAll B w s (c # cs) =
     (case MarkItemSeen B (w\<lparr>now := mc_now c, fails := mc_fails c\<rparr>) s
             (mc_feedURL c) (mc_feedName c) (mc_channel c) (mc_itemID c) of
        (r, s', w') \<Rightarrow> markAll B w' s' cs)"

text \<open>The ids marked for one bucket by a sequence of calls, in order.\<close>

definition markedIDs :: "markCall list \<Rightarrow> string \<Rightarrow> string \<Rightarrow> string list" where
  "markedIDs cs feedURL channel =
     map mc_itemID (filter (\<lambda>c. mc_feedURL c = feedURL \<and> mc_channel c = channel) cs)"

text \<open>
  What \<open>MarkItemSeen\<close> has done in memory by the time it calls
  \<open>saveChannelState\<close>: the bucket it stores, and the store holding it.
\<close>

definition markedState :: "'f bloom \<Rightarrow> world \<Rightarrow> 'f Storage \<Rightarrow> string \<Rightarrow> string \<Rightarrow> string \<Rightarrow> 'f ChannelState" where
  "markedState B w s feedURL channel itemID =
     \<lparr>filter_cs = Add B (case lookupState s feedURL channel of
                          None \<Rightarrow> NewWithEstimates B
                        | Some st \<Rightarrow> filter_cs st) itemID,
      updatedAt = now w\<rparr>"

definition markedStorage :: "'f bloom \<Rightarrow> world \<Rightarrow> 'f Storage \<Rightarrow> string \<Rightarrow> string \<Rightarrow> string \<Rightarrow> 'f Storage" where
  "markedStorage B w s feedURL channel itemID =
     s\<lparr>states := (states s)(feedURL \<mapsto>
          (case states s feedURL of None \<Rightarrow> Map.empty | Some cs \<Rightarrow> cs)
            (channel \<mapsto> markedState B w s feedURL channel itemID))\<rparr>"

definition filterOf :: "'f bloom \<Rightarrow> 'f Storage \<Rightarrow> string \<Rightarrow> string \<Rightarrow> 'f option" where
  "filterOf B s f c = map_option filter_cs (lookupState s f c)"

text \<open>The store before any bucket is loaded, and a day.\<close>

definition emptyStorage :: "string \<Rightarrow> 'f Storage" where
  "emptyStorage dir = \<lparr>states = Map.empty, dataDir = dir\<rparr>"

definition Day :: int where
  "Day = 24 * Hour"

section \<open>The delivery pipeline (package rss, processFeed)\<close>

record Item =
  Title :: string
  Link :: string
  GUID :: string
  Published :: string
  PublishedParsed :: "int option"
  Description :: string
  Content :: string

record FeedConfig =
  Name :: string
  URL :: string
  ArticleExpirationDurationHours :: "int option"
  FirstPush :: bool
  Channels :: "string list"
  Template :: string

text \<open>
  The collaborators of the pipeline: the feed parser, the message renderer, the bot
  (whether its \<open>n\<close>-th \<open>Send\<close> succeeds), SHA-256 in hexadecimal, the random jitter
  of the \<open>n\<close>-th backoff, and \<open>sort.Slice\<close> on the timestamped items.
\<close>

record env =
  ParseURL :: "string \<Rightarrow> string + Item list"
  formatMessage :: "Item \<Rightarrow> string \<Rightarrow> string"
  Send :: "nat \<Rightarrow> string \<Rightarrow> string \<Rightarrow> bool"
  sha256hex :: "bytes \<Rightarrow> string"
  rand_Int63n :: "nat \<Rightarrow> int"
  sort_Slice :: "(Item \<Rightarrow> Item \<Rightarrow> bool) \<Rightarrow> Item list \<Rightarrow> Item list"

datatype event =
    EvSend string string bool
  | EvBackoff nat
  | EvMark string string string
  | EvCooldown

record 'f pstate =
  storage :: "'f Storage"
  wld :: world
  sends :: nat
  trace :: "event list"

definition generateItemID :: "env \<Rightarrow> Item \<Rightarrow> string" where
  "generateItemID E item =
     (if GUID item \<noteq> [] then GUID item
      else if Link item \<noteq> [] then Link item
      else if Title item \<noteq> [] \<and> Published item \<noteq> [] then Title item @ ''|'' @ Published item
      else ''content:'' @ sha256hex E (Content item))"

text \<open>\<open>os.Stat(path)\<close> returns no error.\<close>

definition stat_ok :: "world \<Rightarrow> string \<Rightarrow> bool" where
  "stat_ok w p = (\<not> fails w SysStat p \<and> readFile w p \<noteq> None)"

fun isFirstRun :: "world \<Rightarrow> 'f Storage \<Rightarrow> string \<Rightarrow> string list \<Rightarrow> bool" where
  "isFirstRun w s feedURL [] = True"
| "isFirstRun w s feedURL (channel # rest) =
     (if stat_ok w (GetBloomFilePath s feedURL channel) then False
      else isFirstRun w s feedURL rest)"

fun allChannelsProcessed ::
  "'f bloom \<Rightarrow> 'f Storage \<Rightarrow> FeedConfig \<Rightarrow> string \<Rightarrow> string list \<Rightarrow> bool" where
  "allChannelsProcessed B s fc itemID [] = True"
| "allChannelsProcessed B s fc itemID (channel # rest) =
     (if \<not> IsItemSeen B s (URL fc) (Name fc) channel itemID then False
      else allChannelsProcessed B s fc itemID rest)"

definition markSeen ::
  "'f bloom \<Rightarrow> FeedConfig \<Rightarrow> string \<Rightarrow> string \<Rightarrow> 'f pstate \<Rightarrow> 'f pstate" where
  "markSeen B fc channel itemID st =
     (case MarkItemSeen B (wld st) (storage st) (URL fc) (Name fc) channel itemID of
        (r, s', w') \<Rightarrow>
          st\<lparr>storage := s', wld := w', trace := trace st @ [EvMark (URL fc) channel itemID]\<rparr>)"

fun markChannels ::
  "'f bloom \<Rightarrow> FeedConfig \<Rightarrow> string \<Rightarrow> string list \<Rightarrow> 'f pstate \<Rightarrow> 'f pstate" where
  "markChannels B fc itemID [] st = st"
| "markChannels B fc itemID (channel # rest) st =
     markChannels B fc itemID rest (markSeen B fc channel itemID st)"

text \<open>\<open>time.Duration(hours) * time.Hour\<close> is a 64-bit product.\<close>

definition wrap64 :: "int \<Rightarrow> int" where
  "wrap64 x = sint (word_of_int x :: 64 word)"

definition isStale :: "world \<Rightarrow> FeedConfig \<Rightarrow> Item \<Rightarrow> bool" where
  "isStale w fc item =
     (case PublishedParsed item of
        None \<Rightarrow> False
      | Some published \<Rightarrow>
          (case ArticleExpirationDurationHours fc of
             None \<Rightarrow> False
           | Some hours \<Rightarrow> time_Since (now w) published > wrap64 (hours * Hour)))"

text \<open>
  The candidate loop of \<open>processFeed\<close>: \<open>seenInThisRun\<close> and \<open>newItems\<close> are
  accumulators, and the state changes only in the first-run branch.
\<close>

fun filterItems ::
  "'f bloom \<Rightarrow> env \<Rightarrow> FeedConfig \<Rightarrow> bool \<Rightarrow> Item list \<Rightarrow> string list \<Rightarrow> Item list \<Rightarrow> 'f pstate
     \<Rightarrow> Item list \<times> 'f pstate" where
  "filterItems B E fc firstRun [] seenInThisRun newItems st = (newItems, st)"
| "filterItems B E fc firstRun (item # rest) seenInThisRun newItems st =
     (if Title item = [] \<and> Link item = []
      then filterItems B E fc firstRun rest seenInThisRun newItems st
      else
        (let itemID = generateItemID E item
         in if itemID \<in> set seenInThisRun
            then filterItems B E fc firstRun rest seenInThisRun newItems st
            else if firstRun \<and> \<not> FirstPush fc
            then filterItems B E fc firstRun rest seenInThisRun newItems
                   (markChannels B fc itemID (Channels fc) st)
            else if allChannelsProcessed B (storage st) fc itemID (Channels fc)
            then filterItems B E fc firstRun rest seenInThisRun newItems st
            else if isStale (wld st) fc item
            then filterItems B E fc firstRun rest seenInThisRun newItems st
            else filterItems B E fc firstRun rest (itemID # seenInThisRun) (newItems @ [item]) st))"

text \<open>
  The same loop in internal/rss/handler.go: no first-run branch, and the fixed
  \<open>articleExpirationDuration\<close> of 30 days.
\<close>

definition articleExpirationDuration :: int where
  "articleExpirationDuration = 30 * 24 * Hour"

definition isStale_handler :: "world \<Rightarrow> Item \<Rightarrow> bool" where
  "isStale_handler w item =
     (case PublishedParsed item of
        None \<Rightarrow> False
      | Some published \<Rightarrow> time_Since (now w) published > articleExpirationDuration)"

fun filterItems_handler ::
  "'f bloom \<Rightarrow> env \<Rightarrow> FeedConfig \<Rightarrow> Item list \<Rightarrow> string list \<Rightarrow> Item list \<Rightarrow> 'f pstate
     \<Rightarrow> Item list" where
  "filterItems_handler B E fc [] seenInThisRun newItems st = newItems"
| "filterItems_handler B E fc (item # rest) seenInThisRun newItems st =
     (if Title item = [] \<and> Link item = []
      then filterItems_handler B E fc rest seenInThisRun newItems st
      else
        (let itemID = generateItemID E item
         in if itemID \<in> set seenInThisRun
            then filterItems_handler B E fc rest seenInThisRun newItems st
            else if allChannelsProcessed B (storage st) fc itemID (Channels fc)
            then filterItems_handler B E fc rest seenInThisRun newItems st
            else if isStale_handler (wld st) item
            then filterItems_handler B E fc rest seenInThisRun newItems st
            else filterItems_handler B E fc rest (itemID # seenInThisRun) (newItems @ [item]) st))"

text \<open>The ordering pass. The comparison handed to \<open>sort.Slice\<close> is \<open>Before\<close> on the
  publish times; it is only ever applied to items that have one.\<close>

definition publishedBefore :: "Item \<Rightarrow> Item \<Rightarrow> bool" where
  "publishedBefore a b =
     (case (PublishedParsed a, PublishedParsed b) of
        (Some x, Some y) \<Rightarrow> x < y
      | _ \<Rightarrow> False)"

definition orderItems :: "env \<Rightarrow> Item list \<Rightarrow> Item list" where
  "orderItems E newItems =
     (if newItems \<noteq> [] then
        (let withTime = filter (\<lambda>item. PublishedParsed item \<noteq> None) newItems;
             withoutTime = filter (\<lambda>item. PublishedParsed item = None) newItems;
             withTime' = (if withTime \<noteq> [] then sort_Slice E publishedBefore withTime else withTime)
         in withTime' @ withoutTime)
      else newItems)"

text \<open>The dispatch loop: one task for each new item and each channel that has not seen
  it, unless the rendered message is empty.\<close>

record task =
  t_channel :: string
  t_itemID :: string
  t_message :: string

fun dispatchChannels ::
  "'f bloom \<Rightarrow> env \<Rightarrow> FeedConfig \<Rightarrow> 'f Storage \<Rightarrow> Item \<Rightarrow> string list \<Rightarrow> task list" where
  "dispatchChannels B E fc s item [] = []"
| "dispatchChannels B E fc s item (channel # rest) =
     (let itemID = generateItemID E item
      in if IsItemSeen B s (URL fc) (Name fc) channel itemID
         then dispatchChannels B E fc s item rest
         else
           (let message = formatMessage E item (Template fc)
            in if message = [] then dispatchChannels B E fc s item rest
               else \<lparr>t_channel = channel, t_itemID = itemID, t_message = message\<rparr>
                      # dispatchChannels B E fc s item rest))"

definition dispatch :: "'f bloom \<Rightarrow> env \<Rightarrow> FeedConfig \<Rightarrow> 'f Storage \<Rightarrow> Item list \<Rightarrow> task list" where
  "dispatch B E fc s newItems =
     concat (map (\<lambda>item. dispatchChannels B E fc s item (Channels fc)) newItems)"

text \<open>\<open>ExponentialBackoffWithJitter\<close> and the one-second pause after a delivery: they
  sleep, which moves the clock.\<close>

definition maxJitter :: int where
  "maxJitter = 500 * 1000000"

definition ExponentialBackoffWithJitter :: "env \<Rightarrow> nat \<Rightarrow> 'f pstate \<Rightarrow> 'f pstate" where
  "ExponentialBackoffWithJitter E attempt st =
     (let delay = Second * 2 ^ attempt;
          jitter = rand_Int63n E (sends st) mod maxJitter
      in st\<lparr>wld := (wld st)\<lparr>now := now (wld st) + (delay + jitter)\<rparr>,
            trace := trace st @ [EvBackoff attempt]\<rparr>)"

definition cooldown :: "'f pstate \<Rightarrow> 'f pstate" where
  "cooldown st = st\<lparr>wld := (wld st)\<lparr>now := now (wld st) + Second\<rparr>, trace := trace st @ [EvCooldown]\<rparr>"

definition maxRetries :: nat where
  "maxRetries = 3"

definition bot_Send :: "env \<Rightarrow> string \<Rightarrow> string \<Rightarrow> 'f pstate \<Rightarrow> bool \<times> 'f pstate" where
  "bot_Send E channel message st =
     (let ok = Send E (sends st) channel message
      in (ok, st\<lparr>sends := sends st + 1, trace := trace st @ [EvSend channel message ok]\<rparr>))"

text \<open>The retry loop of one delivery task, from attempt \<open>i\<close>; it returns \<open>sendSuccess\<close>.\<close>

function sendLoop :: "env \<Rightarrow> string \<Rightarrow> string \<Rightarrow> nat \<Rightarrow> 'f pstate \<Rightarrow> bool \<times> 'f pstate" where
  "sendLoop E channel message i st =
     (if i < maxRetries then
        (case bot_Send E channel message st of
           (ok, st1) \<Rightarrow>
             if \<not> ok then
               (if i = maxRetries - 1 then (False, st1)
                else sendLoop E channel message (i + 1) (ExponentialBackoffWithJitter E i st1))
             else (True, st1))
      else (False, st))"
  by pat_completeness auto
termination
  by (relation "measure (\<lambda>(E, channel, message, i, st). maxRetries - i)") auto

definition deliver :: "'f bloom \<Rightarrow> env \<Rightarrow> FeedConfig \<Rightarrow> task \<Rightarrow> 'f pstate \<Rightarrow> 'f pstate" where
  "deliver B E fc t st =
     (case sendLoop E (t_channel t) (t_message t) 0 st of
        (sendSuccess, st1) \<Rightarrow>
          if sendSuccess then cooldown (markSeen B fc (t_channel t) (t_itemID t) st1)
          else st1)"

text \<open>
  One polling cycle for one feed. The delivery tasks are goroutines; the model runs them
  one after the other in the order they are launched, after the dispatch loop.
\<close>

definition processFeed ::
  "'f bloom \<Rightarrow> env \<Rightarrow> FeedConfig \<Rightarrow> 'f pstate \<Rightarrow> error option \<times> 'f pstate" where
  "processFeed B E fc st =
     (case ParseURL E (URL fc) of
        Inl msg \<Rightarrow> (Some (ParsingFeed msg), st)
      | Inr items \<Rightarrow>
          if items = [] then (None, st)
          else
            (let firstRun = isFirstRun (wld st) (storage st) (URL fc) (Channels fc)
             in case filterItems B E fc firstRun items [] [] st of
                  (newItems, st1) \<Rightarrow>
                    (let ordered = orderItems E newItems;
                         tasks = dispatch B E fc (storage st1) ordered
                     in (None, fold (deliver B E fc) tasks st1))))"

text \<open>
  \<open>sort.Slice\<close> is not stable and its algorithm is the library's; what the pipeline
  needs from it is that the result is a rearrangement with no pair out of order
  (\<open>sort_Slice_ok\<close>). An insertion sort is one such function.
\<close>

fun insertBy :: "('a \<Rightarrow> 'a \<Rightarrow> bool) \<Rightarrow> 'a \<Rightarrow> 'a list \<Rightarrow> 'a list" where
  "insertBy lt x [] = [x]"
| "insertBy lt x (y # ys) = (if lt x y then x # y # ys else y # insertBy lt x ys)"

definition sortBy :: "('a \<Rightarrow> 'a \<Rightarrow> bool) \<Rightarrow> 'a list \<Rightarrow> 'a list" where
  "sortBy lt xs = foldr (insertBy lt) xs []"

definition sort_Slice_ok :: "env \<Rightarrow> bool" where
  "sort_Slice_ok E =
     (\<forall>xs. list_all (\<lambda>item. PublishedParsed item \<noteq> None) xs \<longrightarrow>
        mset (sort_Slice E publishedBefore xs) = mset xs \<and>
        sorted_wrt (\<lambda>a b. \<not> publishedBefore b a) (sort_Slice E publishedBefore xs))"



definition isMark :: "event \<Rightarrow> bool" where
  "isMark e = (case e of EvMark u c i \<Rightarrow> True | _ \<Rightarrow> False)"


text \<open>The events of the retry loop, by the outcomes of its (at most three) sends.\<close>

definition retryEvents :: "string \<Rightarrow> string \<Rightarrow> bool \<Rightarrow> bool \<Rightarrow> bool \<Rightarrow> event list" where
  "retryEvents c m o0 o1 o2 =
     (if o0 then [EvSend c m True]
      else if o1 then [EvSend c m False, EvBackoff 0, EvSend c m True]
      else if o2 then [EvSend c m False, EvBackoff 0, EvSend c m False, EvBackoff 1, EvSend c m True]
      else [EvSend c m False, EvBackoff 0, EvSend c m False, EvBackoff 1, EvSend c m False])"

text \<open>An item that can be addressed: it has a title or a link.\<close>

definition addressable :: "Item \<Rightarrow> bool" where
  "addressable item = (Title item \<noteq> [] \<or> Link item \<noteq> [])"

text \<open>
  Collaborators for evaluation: a feed given as a list, the title as the rendered
  message, a bot whose \<open>n\<close>-th send succeeds as the list says (and always beyond
  it), no jitter, and the insertion sort.
\<close>

definition testEnv :: "Item list \<Rightarrow> bool list \<Rightarrow> env" where
  "testEnv items outcomes =
     \<lparr> ParseURL = (\<lambda>url. Inr items),
       formatMessage = (\<lambda>item template. Title item),
       Send = (\<lambda>n channel message. if n < length outcomes then outcomes ! n else True),
       sha256hex = (\<lambda>content. []),
       rand_Int63n = (\<lambda>n. 0),
       sort_Slice = sortBy \<rparr>"

definition testItem :: "string \<Rightarrow> string \<Rightarrow> int option \<Rightarrow> Item" where
  "testItem guid title published =
     \<lparr> Title = title, Link = [], GUID = guid, Published = [],
       PublishedParsed = published, Description = [], Content = [] \<rparr>"

definition testFeed :: "int option \<Rightarrow> bool \<Rightarrow> FeedConfig" where
  "testFeed hours firstPush =
     \<lparr> Name = ''feed'', URL = ''F'', ArticleExpirationDurationHours = hours,
       FirstPush = firstPush, Channels = [''a''], Template = [] \<rparr>"

definition startState :: "int \<Rightarrow> (nat set) pstate" where
  "startState t =
     \<lparr> storage = emptyStorage ''data'',
       wld = \<lparr>files = [], now = t, fails = noFaults\<rparr>,
       sends = 0,
       trace = [] \<rparr>"

subsection \<open>Base64\<close>

lemma of_char_lt: "(of_char (c::char) :: nat) < 256"
  using of_char_mod_256[of c, where ?'a=nat] by (metis mod_less_divisor zero_less_numeral)

lemma char_of_cong: "(n::nat) mod 256 = of_char c \<Longrightarrow> char_of n = c"
proof -
  assume a: "n mod 256 = of_char c"
  have "char_of n = char_of (of_char c :: nat)"
    unfolding char_of_eq_iff using a by (simp add: take_bit_eq_mod)
  then show ?thesis by simp
qed

lemma digits64:
  fixes v :: nat
  assumes "v < 16777216"
  shows "(v div 262144 mod 64) * 262144 + (v div 4096 mod 64) * 4096 + (v div 64 mod 64) * 64 + v mod 64 = v"
proof -
  define x where "x = v div 64"
  define y where "y = x div 64"
  define z where "z = y div 64"
  define r0 where "r0 = v mod 64"
  define r1 where "r1 = x mod 64"
  define r2 where "r2 = y mod 64"
  have hv: "v = x * 64 + r0" by (simp add: x_def r0_def)
  have hx: "x = y * 64 + r1" by (simp add: y_def r1_def)
  have hy: "y = z * 64 + r2" by (simp add: z_def r2_def)
  have dy: "v div 4096 = y" by (simp add: y_def x_def div_mult2_eq)
  have dz: "v div 262144 = z" by (simp add: z_def y_def x_def div_mult2_eq)
  have "z < 64" using assms unfolding dz[symmetric] by (simp add: less_mult_imp_div_less)
  then have zm: "z mod 64 = z" by simp
  have "z * 262144 + r2 * 4096 + r1 * 64 + r0 = ((z * 64 + r2) * 64 + r1) * 64 + r0"
    by (simp add: algebra_simps)
  also have "\<dots> = v" using hv hx hy by simp
  finally show ?thesis
    unfolding dz dy zm x_def[symmetric] r0_def[symmetric] r1_def[symmetric] r2_def[symmetric] .
qed

lemma bytes3:
  fixes a b c :: nat
  assumes "a < 256" "b < 256" "c < 256"
  shows "(a * 65536 + b * 256 + c) div 65536 mod 256 = a"
    and "(a * 65536 + b * 256 + c) div 256 mod 256 = b"
    and "(a * 65536 + b * 256 + c) mod 256 = c"
    and "a * 65536 + b * 256 + c < 16777216"
proof -
  define v where "v = a * 65536 + b * 256 + c"
  define u where "u = a * 256 + b"
  have e: "v = u * 256 + c" by (simp add: v_def u_def)
  have m: "v mod 256 = c" unfolding e using assms(3) by simp
  have d: "v div 256 = u" unfolding e using assms(3) by simp
  have d2: "v div 65536 = u div 256"
    using div_mult2_eq[of v 256 256] d by simp
  have um: "u mod 256 = b" unfolding u_def using assms(2) by simp
  have ud: "u div 256 = a" unfolding u_def using assms(2) by simp
  show "(a * 65536 + b * 256 + c) div 65536 mod 256 = a"
    unfolding v_def[symmetric] d2 ud using assms(1) by simp
  show "(a * 65536 + b * 256 + c) div 256 mod 256 = b"
    unfolding v_def[symmetric] d um ..
  show "(a * 65536 + b * 256 + c) mod 256 = c"
    unfolding v_def[symmetric] m ..
  show "a * 65536 + b * 256 + c < 16777216" using assms by simp
qed

lemma bytes1:
  fixes a :: nat
  assumes "a < 256"
  shows "(a * 65536) div 65536 mod 256 = a"
  using assms by simp

lemma bytes2:
  fixes a b :: nat
  assumes "a < 256" "b < 256"
  shows "(a * 65536 + b * 256) div 65536 mod 256 = a"
    and "(a * 65536 + b * 256) div 256 mod 256 = b"
    and "a * 65536 + b * 256 < 16777216"
  using bytes3(1,2,4)[OF assms, of 0] by simp_all

lemma low_digits_zero:
  fixes a b :: nat
  shows "(a * 65536 + b * 256) mod 64 = 0"
    and "(a * 65536) mod 64 = 0"
    and "(a * 65536) div 64 mod 64 = 0"
proof -
  have "a * 65536 + b * 256 = (a * 1024 + b * 4) * 64" by simp
  then show "(a * 65536 + b * 256) mod 64 = 0" by (metis mod_mult_self2_is_0)
  have e: "a * 65536 = (a * 1024) * 64" by simp
  show "(a * 65536) mod 64 = 0" by (subst e) (rule mod_mult_self2_is_0)
  have "(a * 65536) div 64 = (a * 16) * 64" by simp
  then show "(a * 65536) div 64 mod 64 = 0" by (metis mod_mult_self2_is_0)
qed

lemma distinct_encodeURL: "distinct encodeURL"
  by (simp add: encodeURL_def)

lemma length_encodeURL: "length encodeURL = 64"
  by (simp add: encodeURL_def)

lemma decodeMap_enc6: "decodeMap (enc6 v) = Some (v mod 64)"
  unfolding decodeMap_def enc6_def
  using map_of_zip_nth[of encodeURL "[0..<64]" "v mod 64"] distinct_encodeURL length_encodeURL
  by simp

lemma special_notin_encodeURL:
  "padChar \<notin> set encodeURL" "CHR 0x0A \<notin> set encodeURL" "CHR 0x0D \<notin> set encodeURL"
  "CHR ''/'' \<notin> set encodeURL"
  by (simp_all add: encodeURL_def padChar_def)

lemma enc6_in: "enc6 v \<in> set encodeURL"
  by (simp add: enc6_def length_encodeURL)

lemma enc6_not_pad: "enc6 v \<noteq> padChar"
  using enc6_in special_notin_encodeURL(1) by metis

lemma enc6_not_nl: "\<not> isNewline (enc6 v)"
  using enc6_in special_notin_encodeURL(2,3) unfolding isNewline_def by metis

lemma enc6_not_slash: "enc6 v \<noteq> CHR ''/''"
  using enc6_in special_notin_encodeURL(4) by metis

lemma decodeQuanta_1:
  "decodeQuanta [enc6 x, enc6 y, padChar, padChar] =
   Some [char_of (((x mod 64) * 262144 + (y mod 64) * 4096) div 65536)]"
  by (simp add: decodeMap_enc6 enc6_not_pad)

lemma decodeQuanta_2:
  "decodeQuanta [enc6 x, enc6 y, enc6 z, padChar] =
   Some [char_of (((x mod 64) * 262144 + (y mod 64) * 4096 + (z mod 64) * 64) div 65536),
         char_of (((x mod 64) * 262144 + (y mod 64) * 4096 + (z mod 64) * 64) div 256)]"
  by (simp add: decodeMap_enc6 enc6_not_pad Let_def)

lemma decodeQuanta_3:
  "decodeQuanta (enc6 (v div 262144) # enc6 (v div 4096) # enc6 (v div 64) # enc6 v # rest) =
   map_option (\<lambda>bs. char_of (((v div 262144 mod 64) * 262144 + (v div 4096 mod 64) * 4096 + (v div 64 mod 64) * 64 + v mod 64) div 65536)
         # char_of (((v div 262144 mod 64) * 262144 + (v div 4096 mod 64) * 4096 + (v div 64 mod 64) * 64 + v mod 64) div 256)
         # char_of ((v div 262144 mod 64) * 262144 + (v div 4096 mod 64) * 4096 + (v div 64 mod 64) * 64 + v mod 64) # bs)
      (decodeQuanta rest)"
  by (simp add: decodeMap_enc6 enc6_not_pad Let_def)

lemma decodeQuanta_EncodeToString: "decodeQuanta (EncodeToString s) = Some s"
proof (induction s rule: EncodeToString.induct)
  case 1
  show ?case by simp
next
  case (2 a)
  define v where "v = (of_char a :: nat) * 65536"
  have lt: "v < 16777216" using of_char_lt[of a] by (simp add: v_def)
  have z: "v mod 64 = 0" "v div 64 mod 64 = 0"
    unfolding v_def by (rule low_digits_zero)+
  have w: "(v div 262144 mod 64) * 262144 + (v div 4096 mod 64) * 4096 = v"
    using digits64[OF lt] by (simp only: z mult_zero_left add_0_right)
  have b: "v div 65536 mod 256 = of_char a"
    unfolding v_def by (rule bytes1) (rule of_char_lt)
  have E: "EncodeToString [a] = [enc6 (v div 262144), enc6 (v div 4096), padChar, padChar]"
    by (simp add: Let_def v_def)
  show ?case
    by (simp only: E decodeQuanta_1 w) (simp add: char_of_cong b)
next
  case (3 a b)
  define v where "v = (of_char a :: nat) * 65536 + of_char b * 256"
  have lt: "v < 16777216" unfolding v_def by (rule bytes2) (rule of_char_lt)+
  have z: "v mod 64 = 0"
    unfolding v_def by (rule low_digits_zero)
  have w: "(v div 262144 mod 64) * 262144 + (v div 4096 mod 64) * 4096 + (v div 64 mod 64) * 64 = v"
    using digits64[OF lt] by (simp only: z add_0_right)
  have b: "v div 65536 mod 256 = of_char a" "v div 256 mod 256 = of_char b"
    unfolding v_def by (rule bytes2, rule of_char_lt, rule of_char_lt)+
  have E: "EncodeToString [a, b] =
      [enc6 (v div 262144), enc6 (v div 4096), enc6 (v div 64), padChar]"
    by (simp add: Let_def v_def)
  show ?case
    by (simp only: E decodeQuanta_2 w) (simp add: char_of_cong b)
next
  case (4 a b c rest)
  define v where "v = (of_char a :: nat) * 65536 + of_char b * 256 + of_char c"
  have lt: "v < 16777216" unfolding v_def by (rule bytes3) (rule of_char_lt)+
  have bs: "v div 65536 mod 256 = of_char a" "v div 256 mod 256 = of_char b" "v mod 256 = of_char c"
    unfolding v_def by (rule bytes3, rule of_char_lt, rule of_char_lt, rule of_char_lt)+
  have E: "EncodeToString (a # b # c # rest) =
      enc6 (v div 262144) # enc6 (v div 4096) # enc6 (v div 64) # enc6 v # EncodeToString rest"
    by (simp add: Let_def v_def)
  show ?case
    using "4.IH" by (simp only: E decodeQuanta_3 digits64[OF lt]) (simp add: char_of_cong bs)
qed

lemma EncodeToString_chars:
  "c \<in> set (EncodeToString s) \<Longrightarrow> \<not> isNewline c \<and> c \<noteq> CHR ''/''"
  by (induction s rule: EncodeToString.induct)
     (auto simp: Let_def enc6_not_nl enc6_not_slash, auto simp: isNewline_def padChar_def)

lemma DecodeString_EncodeToString: "DecodeString (EncodeToString s) = Some s"
proof -
  have "filter (\<lambda>c. \<not> isNewline c) (EncodeToString s) = EncodeToString s"
    using EncodeToString_chars by (simp add: filter_id_conv)
  then show ?thesis by (simp add: DecodeString_def decodeQuanta_EncodeToString)
qed

subsection \<open>Strings and paths\<close>

lemma TrimSuffix_append: "strings_TrimSuffix (x @ suf) suf = x"
  by (simp add: strings_TrimSuffix_def suffix_def)

lemma SplitN2_join:
  "CHR ''|'' \<notin> set a \<Longrightarrow> strings_SplitN2 (a @ CHR ''|'' # b) = [a, b]"
proof -
  assume n: "CHR ''|'' \<notin> set a"
  have d: "dropWhile (\<lambda>c. c \<noteq> CHR ''|'') (a @ CHR ''|'' # b) = CHR ''|'' # b"
    using n by (induction a) auto
  have t: "takeWhile (\<lambda>c. c \<noteq> CHR ''|'') (a @ CHR ''|'' # b) = a"
    using n by (induction a) auto
  show ?thesis by (simp add: strings_SplitN2_def d t)
qed

lemma SplitN2_none:
  "CHR ''|'' \<notin> set d \<Longrightarrow> strings_SplitN2 d = [d]"
proof -
  assume n: "CHR ''|'' \<notin> set d"
  have e: "dropWhile (\<lambda>c. c \<noteq> CHR ''|'') d = []"
    using n by (induction d) auto
  show ?thesis unfolding strings_SplitN2_def e by simp
qed

lemma Base_Join:
  assumes "CHR ''/'' \<notin> set name" "name \<noteq> []"
  shows "filepath_Base (filepath_Join dir name) = name"
proof -
  have r: "rev (filepath_Join dir name) = rev name @ CHR ''/'' # rev dir"
    by (simp add: filepath_Join_def)
  have d: "dropWhile (\<lambda>c. c = CHR ''/'') (rev name @ CHR ''/'' # rev dir) = rev name @ CHR ''/'' # rev dir"
    using assms by (cases "rev name") auto
  have "takeWhile (\<lambda>c. c \<noteq> CHR ''/'') (xs @ CHR ''/'' # ys) = xs" if "CHR ''/'' \<notin> set xs" for xs ys
    using that by (induction xs) auto
  from this[of "rev name" "rev dir"]
  have t: "takeWhile (\<lambda>c. c \<noteq> CHR ''/'') (rev name @ CHR ''/'' # rev dir) = rev name"
    using assms by simp
  show ?thesis
    unfolding filepath_Base_def r Let_def d t using assms by (simp add: filepath_Join_def)
qed

lemma bucket_name_no_slash:
  "CHR ''/'' \<notin> set (GenerateBloomFileName feedURL channel @ bloomFileSuffix)"
proof -
  have "CHR ''/'' \<notin> set (EncodeToString x)" for x
    using EncodeToString_chars[of "CHR ''/''" x] by blast
  then show ?thesis by (simp add: GenerateBloomFileName_def bloomFileSuffix_def)
qed

lemma Base_GetBloomFilePath:
  "filepath_Base (GetBloomFilePath s feedURL channel) = GenerateBloomFileName feedURL channel @ bloomFileSuffix"
proof -
  have ne: "GenerateBloomFileName feedURL channel @ bloomFileSuffix \<noteq> []"
    by (simp add: bloomFileSuffix_def)
  show ?thesis
    unfolding GetBloomFilePath_def by (rule Base_Join[OF bucket_name_no_slash ne])
qed

lemma decode_bucket_file:
  "DecodeString (strings_TrimSuffix (filepath_Base (GetBloomFilePath s feedURL channel)) bloomFileSuffix)
     = Some (channel @ ''|'' @ feedURL)"
  by (simp only: Base_GetBloomFilePath TrimSuffix_append GenerateBloomFileName_def DecodeString_EncodeToString)

subsection \<open>Little-endian timestamps\<close>

lemma horner_bytes:
  "horner_sum of_char (256::nat) (map (\<lambda>i. char_of (n div 256 ^ i)) [0..<k]) = n mod 256 ^ k"
proof (induction k)
  case 0
  show ?case by simp
next
  case (Suc k)
  have "horner_sum of_char (256::nat) (map (\<lambda>i. char_of (n div 256 ^ i)) [0..<Suc k])
      = n mod 256 ^ k + 256 ^ k * (n div 256 ^ k mod 256)"
    using Suc by (simp add: horner_sum_append)
  also have "\<dots> = n mod 256 ^ Suc k"
    by (simp only: power_Suc2 mod_mult2_eq add.commute)
  finally show ?case .
qed

lemma Uint64_PutUint64: "Uint64 (PutUint64 v) = v"
proof -
  have "unat v < 256 ^ 8" using unsigned_less[of v, where ?'a=nat] by simp
  then have "unat v mod 256 ^ 8 = unat v" by simp
  then show ?thesis
    unfolding Uint64_def PutUint64_def
    by (simp only: length_map length_upt take_all order_refl diff_zero horner_bytes) simp
qed

lemma length_PutUint64: "length (PutUint64 v) = 8"
  by (simp add: PutUint64_def)

lemma timestamp_roundtrip:
  "time_Unix_nano (Uint64 (take 8 (PutUint64 (UnixNano_u64 t) @ rest))) = time_Unix_nano (UnixNano_u64 t)"
  by (simp add: length_PutUint64 Uint64_PutUint64)

lemma UnixNano_in_range:
  "- (2 ^ 63) \<le> t \<Longrightarrow> t < 2 ^ 63 \<Longrightarrow> time_Unix_nano (UnixNano_u64 t) = t"
  unfolding time_Unix_nano_def UnixNano_u64_def
  by (simp add: sint_sbintrunc' signed_take_bit_int_eq_self)

lemma loadFiles_bucket_file:
  "CHR ''|'' \<notin> set channel \<Longrightarrow>
   loadFiles B w s (GetBloomFilePath s0 feedURL channel # rest) =
     (case loadChannelState B w s feedURL channel of
        Inl err \<Rightarrow> Inl (LoadingState feedURL channel err)
      | Inr s' \<Rightarrow> loadFiles B w s' rest)"
  by (simp only: loadFiles.simps Let_def decode_bucket_file) (simp add: SplitN2_join)

text \<open>
  C9 (amended). For every feed URL and every channel that contains no \<open>|\<close>, the
  start-up decoding (strip the suffix, base64-URL-decode, split at the first \<open>|\<close>)
  of the file name made by \<open>GenerateBloomFileName\<close> recovers the channel and the feed
  URL, and the loop of \<open>NewStorage\<close> loads the bucket under exactly that pair.
\<close>

theorem bucket_filename_roundtrip:
  assumes "CHR ''|'' \<notin> set channel"
  shows "map_option strings_SplitN2
           (DecodeString (strings_TrimSuffix
              (GenerateBloomFileName feedURL channel @ bloomFileSuffix) bloomFileSuffix))
         = Some [channel, feedURL]
       \<and> loadFiles B w s (GetBloomFilePath s feedURL channel # rest) =
           (case loadChannelState B w s feedURL channel of
              Inl err \<Rightarrow> Inl (LoadingState feedURL channel err)
            | Inr s' \<Rightarrow> loadFiles B w s' rest)"
proof -
  have "DecodeString (strings_TrimSuffix
          (GenerateBloomFileName feedURL channel @ bloomFileSuffix) bloomFileSuffix)
        = Some (channel @ ''|'' @ feedURL)"
    by (simp only: TrimSuffix_append GenerateBloomFileName_def DecodeString_EncodeToString)
  then show ?thesis
    using assms loadFiles_bucket_file[OF assms, of B w s s feedURL rest]
    by (simp add: SplitN2_join)
qed

text \<open>The round trip at the channel \<open>@news\<close>.\<close>

theorem bucket_filename_roundtrip_witness:
  "CHR ''|'' \<notin> set ''@news'' \<and>
   map_option strings_SplitN2
     (DecodeString (strings_TrimSuffix
        (GenerateBloomFileName ''https://example.com/feed.xml'' ''@news'' @ bloomFileSuffix)
        bloomFileSuffix))
   = Some [''@news'', ''https://example.com/feed.xml'']"
proof -
  have n: "CHR ''|'' \<notin> set ''@news''" by simp
  show ?thesis
    using n bucket_filename_roundtrip[OF n, THEN conjunct1, of "''https://example.com/feed.xml''"]
    by blast
qed

text \<open>
  C9 as stated fails for a channel that contains the separator: the pair
  (channel \<open>a|b\<close>, feed \<open>x\<close>) comes back as (channel \<open>a\<close>, feed \<open>b|x\<close>).
\<close>

theorem bucket_filename_roundtrip_counterexample:
  "map_option strings_SplitN2
     (DecodeString (strings_TrimSuffix
        (GenerateBloomFileName ''x'' ''a|b'' @ bloomFileSuffix) bloomFileSuffix))
   = Some [''a'', ''b|x'']
   \<and> [''a'', ''b|x''] \<noteq> [''a|b'', ''x'']"
proof -
  have "DecodeString (strings_TrimSuffix
          (GenerateBloomFileName ''x'' ''a|b'' @ bloomFileSuffix) bloomFileSuffix)
        = Some (''a|b'' @ ''|'' @ ''x'')"
    by (simp only: TrimSuffix_append GenerateBloomFileName_def DecodeString_EncodeToString)
  then show ?thesis
    by (simp add: strings_SplitN2_def)
qed

lemma loadFiles_undecodable:
  assumes "file \<in> set fs"
    and "DecodeString (strings_TrimSuffix (filepath_Base file) bloomFileSuffix) = None"
  shows "isl (loadFiles B w s fs)"
  using assms
proof (induction fs arbitrary: s)
  case Nil
  then show ?case by simp
next
  case (Cons f fs)
  show ?case
  proof (cases "DecodeString (strings_TrimSuffix (filepath_Base f) bloomFileSuffix)")
    case None
    then show ?thesis by simp
  next
    case (Some decoded)
    with Cons.prems have mem: "file \<in> set fs" by auto
    have ih: "isl (loadFiles B w s' fs)" for s'
      using Cons.IH[OF mem Cons.prems(2)] .
    show ?thesis
      using Some ih
      by (simp split: list.splits sum.splits)
  qed
qed

lemma loadFiles_skip_malformed:
  assumes "DecodeString (strings_TrimSuffix (filepath_Base file) bloomFileSuffix) = Some decoded"
    and "CHR ''|'' \<notin> set decoded"
  shows "loadFiles B w s (file # rest) = loadFiles B w s rest"
  using assms by (simp add: SplitN2_none)

text \<open>
  C1 (amended). \<open>NewStorage\<close> returns an error and no store whenever some file with
  the bucket suffix has a name that cannot be base64-URL-decoded. A file whose decoded name
  has no \<open>|\<close> does not fail start-up: the loop skips it and goes on with the
  remaining files.
\<close>

theorem NewStorage_undecodable_name:
  "(file \<in> set (filepath_Glob w dir bloomFileSuffix) \<and>
    DecodeString (strings_TrimSuffix (filepath_Base file) bloomFileSuffix) = None
      \<longrightarrow> isl (NewStorage B w dir))
   \<and> (DecodeString (strings_TrimSuffix (filepath_Base file) bloomFileSuffix) = Some decoded \<and>
      CHR ''|'' \<notin> set decoded
      \<longrightarrow> loadFiles B w s (file # rest) = loadFiles B w s rest)"
proof (intro conjI impI)
  assume a: "file \<in> set (filepath_Glob w dir bloomFileSuffix) \<and>
    DecodeString (strings_TrimSuffix (filepath_Base file) bloomFileSuffix) = None"
  show "isl (NewStorage B w dir)"
    unfolding NewStorage_def
    by (simp add: loadFiles_undecodable[OF conjunct1[OF a] conjunct2[OF a]])
next
  assume b: "DecodeString (strings_TrimSuffix (filepath_Base file) bloomFileSuffix) = Some decoded \<and>
      CHR ''|'' \<notin> set decoded"
  show "loadFiles B w s (file # rest) = loadFiles B w s rest"
    by (rule loadFiles_skip_malformed[OF conjunct1[OF b] conjunct2[OF b]])
qed

text \<open>A directory with the undecodable name \<open>x.bloom\<close>, and the skipped name
  \<open>YWJj.bloom\<close> (it decodes to \<open>abc\<close>).\<close>

theorem NewStorage_undecodable_name_witness:
  "''data/x.bloom'' \<in> set (filepath_Glob \<lparr>files = [(''data/x.bloom'', [])], now = 0, fails = noFaults\<rparr>
        ''data'' bloomFileSuffix) \<and>
   DecodeString (strings_TrimSuffix (filepath_Base ''data/x.bloom'') bloomFileSuffix) = None \<and>
   isl (NewStorage smallBloom \<lparr>files = [(''data/x.bloom'', [])], now = 0, fails = noFaults\<rparr> ''data'') \<and>
   DecodeString (strings_TrimSuffix (filepath_Base ''data/YWJj.bloom'') bloomFileSuffix) = Some ''abc'' \<and>
   CHR ''|'' \<notin> set ''abc'' \<and>
   loadFiles smallBloom \<lparr>files = [], now = 0, fails = noFaults\<rparr> \<lparr>states = Map.empty, dataDir = ''data''\<rparr>
       [''data/YWJj.bloom'']
     = Inr \<lparr>states = Map.empty, dataDir = ''data''\<rparr>"
proof -
  have g: "''data/x.bloom'' \<in> set (filepath_Glob \<lparr>files = [(''data/x.bloom'', [])], now = 0, fails = noFaults\<rparr>
        ''data'' bloomFileSuffix)"
    by (simp add: filepath_Glob_def globMatch_def bloomFileSuffix_def suffix_def)
  have d: "DecodeString (strings_TrimSuffix (filepath_Base ''data/x.bloom'') bloomFileSuffix) = None"
    by (simp add: filepath_Base_def strings_TrimSuffix_def bloomFileSuffix_def suffix_def
          DecodeString_def isNewline_def)
  have e: "''YWJj'' = EncodeToString ''abc''"
    by (simp add: enc6_def encodeURL_def)
  have d2: "DecodeString (strings_TrimSuffix (filepath_Base ''data/YWJj.bloom'') bloomFileSuffix) = Some ''abc''"
    by (simp add: filepath_Base_def strings_TrimSuffix_def bloomFileSuffix_def suffix_def)
       (simp only: e DecodeString_EncodeToString)
  have n: "CHR ''|'' \<notin> set ''abc''" by simp
  have t1: "isl (NewStorage smallBloom \<lparr>files = [(''data/x.bloom'', [])], now = 0, fails = noFaults\<rparr> ''data'')"
    using NewStorage_undecodable_name[THEN conjunct1, rule_format, OF conjI[OF g d]] .
  have t2: "loadFiles smallBloom \<lparr>files = [], now = 0, fails = noFaults\<rparr>
       \<lparr>states = Map.empty, dataDir = ''data''\<rparr> [''data/YWJj.bloom'']
     = loadFiles smallBloom \<lparr>files = [], now = 0, fails = noFaults\<rparr>
       \<lparr>states = Map.empty, dataDir = ''data''\<rparr> []"
    using NewStorage_undecodable_name[THEN conjunct2, rule_format, OF conjI[OF d2 n]] .
  show ?thesis
    using g d t1 d2 n t2 by (simp only: loadFiles.simps simp_thms)
qed

text \<open>
  C1 as stated fails: with only the structurally malformed \<open>YWJj.bloom\<close> in the data
  directory, \<open>NewStorage\<close> returns a store.
\<close>

theorem NewStorage_malformed_counterexample:
  "DecodeString (strings_TrimSuffix (filepath_Base ''data/YWJj.bloom'') bloomFileSuffix) = Some ''abc'' \<and>
   NewStorage smallBloom \<lparr>files = [(''data/YWJj.bloom'', [])], now = 0, fails = noFaults\<rparr> ''data''
     = Inr \<lparr>states = Map.empty, dataDir = ''data''\<rparr>"
proof -
  have e: "''YWJj'' = EncodeToString ''abc''"
    by (simp add: enc6_def encodeURL_def)
  have d2: "DecodeString (strings_TrimSuffix (filepath_Base ''data/YWJj.bloom'') bloomFileSuffix) = Some ''abc''"
    by (simp add: filepath_Base_def strings_TrimSuffix_def bloomFileSuffix_def suffix_def)
       (simp only: e DecodeString_EncodeToString)
  have g: "filepath_Glob \<lparr>files = [(''data/YWJj.bloom'', [])], now = 0, fails = noFaults\<rparr>
        ''data'' bloomFileSuffix = [''data/YWJj.bloom'']"
    by (simp add: filepath_Glob_def globMatch_def bloomFileSuffix_def suffix_def)
  show ?thesis
    using d2 by (simp add: NewStorage_def g noFaults_def SplitN2_none)
qed

subsection \<open>Files\<close>

lemma map_of_filter_fst:
  "map_of (filter (\<lambda>e. fst e \<noteq> p) fs) q = (if q = p then None else map_of fs q)"
  by (induction fs) auto

lemma readFile_writeFile:
  "readFile (writeFile w p c) q = (if q = p then Some c else readFile w q)"
  by (simp add: readFile_def writeFile_def map_of_filter_fst)

lemma map_of_filter_fst2:
  "map_of (filter (\<lambda>e. fst e \<noteq> p \<and> fst e \<noteq> p') fs) q =
     (if q = p \<or> q = p' then None else map_of fs q)"
  by (induction fs) auto

lemma readFile_renameFile:
  "readFile w old = Some c \<Longrightarrow>
   readFile (renameFile w old new) q =
     (if q = new then Some c else if q = old then None else readFile w q)"
  by (simp add: readFile_def renameFile_def map_of_filter_fst2)

lemma writeFile_fields [simp]:
  "now (writeFile w p c) = now w" "fails (writeFile w p c) = fails w"
  by (simp_all add: writeFile_def)

lemma tmp_neq: "p @ ''.tmp'' \<noteq> p"
  by simp

subsection \<open>The store operations\<close>

lemma IsItemSeen_lookup:
  "IsItemSeen B s feedURL feedName channel itemID =
     (case lookupState s feedURL channel of
        None \<Rightarrow> False
      | Some state \<Rightarrow> Test B (filter_cs state) itemID)"
  by (simp add: IsItemSeen_def lookupState_def split: option.splits)

lemma GetLastUpdated_lookup:
  "GetLastUpdated s feedURL channel =
     (case lookupState s feedURL channel of None \<Rightarrow> zeroTime | Some state \<Rightarrow> updatedAt state)"
  by (simp add: GetLastUpdated_def lookupState_def split: option.splits)

lemma MarkItemSeen_eq:
  "MarkItemSeen B w s feedURL feedName channel itemID =
     (case saveChannelState B w (markedStorage B w s feedURL channel itemID) feedURL channel
             (markedState B w s feedURL channel itemID) of
        (r, w') \<Rightarrow> (map_option SavingChannelState r, markedStorage B w s feedURL channel itemID, w'))"
  unfolding MarkItemSeen_def markedStorage_def markedState_def lookupState_def Let_def
  by (auto split: option.splits prod.splits)

lemma MarkItemSeen_storage:
  "fst (snd (MarkItemSeen B w s feedURL feedName channel itemID)) =
     markedStorage B w s feedURL channel itemID"
  by (simp add: MarkItemSeen_eq split: prod.splits)

lemma lookupState_markedStorage:
  "lookupState (markedStorage B w s feedURL channel itemID) f c =
     (if f = feedURL \<and> c = channel then Some (markedState B w s feedURL channel itemID)
      else lookupState s f c)"
  by (auto simp: markedStorage_def lookupState_def split: option.splits)

lemma dataDir_markedStorage [simp]:
  "dataDir (markedStorage B w s feedURL channel itemID) = dataDir s"
  by (simp add: markedStorage_def)

lemma GetBloomFilePath_dataDir:
  "dataDir s = dataDir s' \<Longrightarrow> GetBloomFilePath s f c = GetBloomFilePath s' f c"
  by (simp add: GetBloomFilePath_def)

subsection \<open>Sequences of marks\<close>

lemma filterOf_markAll:
  "filterOf B (fst (markAll B w s cs)) f c =
     (case markedIDs cs f c of
        [] \<Rightarrow> filterOf B s f c
      | x # xs \<Rightarrow> Some (foldl (Add B)
                   (case filterOf B s f c of None \<Rightarrow> NewWithEstimates B | Some flt \<Rightarrow> flt)
                   (x # xs)))"
proof (induction cs arbitrary: w s)
  case Nil
  show ?case by (simp add: markedIDs_def)
next
  case (Cons a cs)
  obtain r s' w' where m: "MarkItemSeen B (w\<lparr>now := mc_now a, fails := mc_fails a\<rparr>) s
             (mc_feedURL a) (mc_feedName a) (mc_channel a) (mc_itemID a) = (r, s', w')"
    by (cases "MarkItemSeen B (w\<lparr>now := mc_now a, fails := mc_fails a\<rparr>) s
             (mc_feedURL a) (mc_feedName a) (mc_channel a) (mc_itemID a)") auto
  have s': "s' = markedStorage B (w\<lparr>now := mc_now a, fails := mc_fails a\<rparr>) s (mc_feedURL a) (mc_channel a) (mc_itemID a)"
    using MarkItemSeen_storage[of B "w\<lparr>now := mc_now a, fails := mc_fails a\<rparr>" s
        "mc_feedURL a" "mc_feedName a" "mc_channel a" "mc_itemID a"] m by simp
  have step: "filterOf B s' f c =
      (if f = mc_feedURL a \<and> c = mc_channel a
       then Some (Add B (case filterOf B s f c of None \<Rightarrow> NewWithEstimates B | Some flt \<Rightarrow> flt) (mc_itemID a))
       else filterOf B s f c)"
    unfolding s' filterOf_def lookupState_markedStorage markedState_def
    by (simp split: option.splits)
  have "filterOf B (fst (markAll B w s (a # cs))) f c = filterOf B (fst (markAll B w' s' cs)) f c"
    using m by simp
  also have "\<dots> = (case markedIDs cs f c of
        [] \<Rightarrow> filterOf B s' f c
      | x # xs \<Rightarrow> Some (foldl (Add B)
                   (case filterOf B s' f c of None \<Rightarrow> NewWithEstimates B | Some flt \<Rightarrow> flt)
                   (x # xs)))"
    by (rule Cons.IH)
  also have "\<dots> = (case markedIDs (a # cs) f c of
        [] \<Rightarrow> filterOf B s f c
      | x # xs \<Rightarrow> Some (foldl (Add B)
                   (case filterOf B s f c of None \<Rightarrow> NewWithEstimates B | Some flt \<Rightarrow> flt)
                   (x # xs)))"
    unfolding step by (simp add: markedIDs_def split: list.splits)
  finally show ?case .
qed

lemma IsItemSeen_filterOf:
  "IsItemSeen B s f n c x = (case filterOf B s f c of None \<Rightarrow> False | Some flt \<Rightarrow> Test B flt x)"
  by (simp add: IsItemSeen_lookup filterOf_def split: option.splits)

lemma Test_foldl_Add:
  assumes "bloom_ok B" "Test B flt x"
  shows "Test B (foldl (Add B) flt xs) x"
  using assms(2)
proof (induction xs arbitrary: flt)
  case Nil
  then show ?case by simp
next
  case (Cons a xs)
  have "Test B (Add B flt a) x" using assms(1) Cons.prems unfolding bloom_ok_def by blast
  then show ?case using Cons.IH by simp
qed

lemma IsItemSeen_markAll_mono:
  assumes "bloom_ok B" "IsItemSeen B s f n c x"
  shows "IsItemSeen B (fst (markAll B w s cs)) f n' c x"
proof -
  obtain flt where flt: "filterOf B s f c = Some flt" "Test B flt x"
    using assms(2) by (auto simp: IsItemSeen_filterOf split: option.splits)
  show ?thesis
    unfolding IsItemSeen_filterOf filterOf_markAll flt(1)
    using Test_foldl_Add[OF assms(1) flt(2)] flt(2)
    by (cases "markedIDs cs f c") (simp_all del: foldl_Cons)
qed


subsection \<open>Saving and loading one bucket\<close>

lemma saveChannelState_success:
  assumes "saveChannelState B w s f c st = (None, w')"
  shows "\<exists>filterData. MarshalBinary B (filter_cs st) = Some filterData \<and>
           readFile w' (GetBloomFilePath s f c) =
             Some (PutUint64 (UnixNano_u64 (now w)) @ filterData)"
  using assms
  unfolding saveChannelState_def Let_def
  by (auto split: if_splits option.splits simp: readFile_renameFile readFile_writeFile)

lemma saveChannelState_failure:
  assumes "saveChannelState B w s f c st = (Some e, w')"
  shows "readFile w' (GetBloomFilePath s f c) = readFile w (GetBloomFilePath s f c)"
  using assms
  unfolding saveChannelState_def Let_def
  by (auto split: if_splits option.splits simp: readFile_writeFile)

lemma loadChannelState_stored:
  assumes stored: "readFile w (GetBloomFilePath s f c) = Some (PutUint64 (UnixNano_u64 t) @ filterData)"
    and io: "\<not> fails w SysStat (GetBloomFilePath s f c)"
            "\<not> fails w SysOpenRead (GetBloomFilePath s f c)"
            "\<not> fails w SysReadTimestamp (GetBloomFilePath s f c)"
            "\<not> fails w SysReadFilter (GetBloomFilePath s f c)"
    and fresh: "time_Since (now w) (time_Unix_nano (UnixNano_u64 t)) \<le> stateExpirationDuration"
    and data: "filterData \<noteq> []" "UnmarshalBinary B filterData = Some g"
  shows "\<exists>s'. loadChannelState B w s f c = Inr s' \<and>
           lookupState s' f c = Some \<lparr>filter_cs = g, updatedAt = time_Unix_nano (UnixNano_u64 t)\<rparr>"
  using fresh data
  unfolding loadChannelState_def Let_def
  by (simp add: stored io Uint64_PutUint64 length_PutUint64 lookupState_def)


text \<open>
  Within a process, and across one load step. After \<open>MarkItemSeen\<close> for a pair and an
  id (whether or not its save succeeded), \<open>IsItemSeen\<close> for them is true, and stays
  true after any further marks of the process. If the mark succeeded, a later
  \<open>loadChannelState\<close> of the pair that finds the bucket file as it was written, meets
  no I/O error and finds the stored timestamp within the expiration window succeeds, and
  \<open>IsItemSeen\<close> is true in the store it returns and after any further marks. This is
  one step of the loop of \<open>NewStorage\<close>; the steps for the files that follow act on
  the store it returns.
\<close>

lemma marked_item_stays_seen:
  assumes ok: "bloom_ok B"
    and mark: "MarkItemSeen B w s feedURL feedName channel itemID = (r, s1, w1)"
  shows "IsItemSeen B (fst (markAll B w1 s1 calls)) feedURL feedName channel itemID \<and>
         (r = None \<and>
          dataDir s0 = dataDir s \<and>
          readFile w2 (GetBloomFilePath s feedURL channel) =
            readFile w1 (GetBloomFilePath s feedURL channel) \<and>
          \<not> fails w2 SysStat (GetBloomFilePath s feedURL channel) \<and>
          \<not> fails w2 SysOpenRead (GetBloomFilePath s feedURL channel) \<and>
          \<not> fails w2 SysReadTimestamp (GetBloomFilePath s feedURL channel) \<and>
          \<not> fails w2 SysReadFilter (GetBloomFilePath s feedURL channel) \<and>
          time_Since (now w2) (time_Unix_nano (UnixNano_u64 (now w))) \<le> stateExpirationDuration
          \<longrightarrow> (\<exists>s2. loadChannelState B w2 s0 feedURL channel = Inr s2 \<and>
                 IsItemSeen B (fst (markAll B w2 s2 calls')) feedURL feedName channel itemID))"
proof (intro conjI impI)
  let ?st = "markedState B w s feedURL channel itemID"
  let ?ms = "markedStorage B w s feedURL channel itemID"
  have s1: "s1 = ?ms"
    using MarkItemSeen_storage[of B w s feedURL feedName channel itemID] mark by simp
  have t: "Test B (filter_cs ?st) itemID"
    using ok unfolding bloom_ok_def markedState_def by simp
  have seen1: "IsItemSeen B s1 feedURL feedName channel itemID"
    unfolding s1 IsItemSeen_lookup lookupState_markedStorage using t by simp
  show "IsItemSeen B (fst (markAll B w1 s1 calls)) feedURL feedName channel itemID"
    by (rule IsItemSeen_markAll_mono[OF ok seen1])
  assume h: "r = None \<and>
          dataDir s0 = dataDir s \<and>
          readFile w2 (GetBloomFilePath s feedURL channel) =
            readFile w1 (GetBloomFilePath s feedURL channel) \<and>
          \<not> fails w2 SysStat (GetBloomFilePath s feedURL channel) \<and>
          \<not> fails w2 SysOpenRead (GetBloomFilePath s feedURL channel) \<and>
          \<not> fails w2 SysReadTimestamp (GetBloomFilePath s feedURL channel) \<and>
          \<not> fails w2 SysReadFilter (GetBloomFilePath s feedURL channel) \<and>
          time_Since (now w2) (time_Unix_nano (UnixNano_u64 (now w))) \<le> stateExpirationDuration"
  have p0: "GetBloomFilePath s0 feedURL channel = GetBloomFilePath s feedURL channel"
    using h by (simp add: GetBloomFilePath_def)
  have pm: "GetBloomFilePath ?ms feedURL channel = GetBloomFilePath s feedURL channel"
    by (simp add: GetBloomFilePath_def)
  have save: "saveChannelState B w ?ms feedURL channel ?st = (None, w1)"
    using mark h unfolding MarkItemSeen_eq by (auto split: prod.splits)
  obtain filterData where fd: "MarshalBinary B (filter_cs ?st) = Some filterData"
      "readFile w1 (GetBloomFilePath s feedURL channel) =
         Some (PutUint64 (UnixNano_u64 (now w)) @ filterData)"
    using saveChannelState_success[OF save] unfolding pm by blast
  obtain g where g: "filterData \<noteq> []" "UnmarshalBinary B filterData = Some g"
      "\<And>x. Test B g x = Test B (filter_cs ?st) x"
    using ok fd(1) unfolding bloom_ok_def by blast
  have stored: "readFile w2 (GetBloomFilePath s0 feedURL channel) =
      Some (PutUint64 (UnixNano_u64 (now w)) @ filterData)"
    using h fd(2) p0 by simp
  obtain s2 where s2: "loadChannelState B w2 s0 feedURL channel = Inr s2"
      "lookupState s2 feedURL channel =
         Some \<lparr>filter_cs = g, updatedAt = time_Unix_nano (UnixNano_u64 (now w))\<rparr>"
    using loadChannelState_stored[OF stored _ _ _ _ _ g(1,2)] h unfolding p0 by blast
  have seen2: "IsItemSeen B s2 feedURL feedName channel itemID"
    unfolding IsItemSeen_lookup s2(2) using g(3) t by simp
  show "\<exists>s2. loadChannelState B w2 s0 feedURL channel = Inr s2 \<and>
          IsItemSeen B (fst (markAll B w2 s2 calls')) feedURL feedName channel itemID"
    using s2(1) IsItemSeen_markAll_mono[OF ok seen2] by blast
qed

text \<open>
  C10. When \<open>MarkItemSeen\<close> returns an error, the error is the wrapped error of
  \<open>saveChannelState\<close>, run on the bucket already changed in memory: that bucket holds
  the id and the new \<open>updatedAt\<close>, so \<open>IsItemSeen\<close> is true and \<open>GetLastUpdated\<close>
  is the time of the call, while the bucket file is what it was before the call.
\<close>

theorem MarkItemSeen_not_atomic:
  assumes ok: "bloom_ok B"
    and mark: "MarkItemSeen B w s feedURL feedName channel itemID = (Some err, s', w')"
  shows "(\<exists>e state. lookupState s' feedURL channel = Some state \<and>
            saveChannelState B w s' feedURL channel state = (Some e, w') \<and>
            err = SavingChannelState e) \<and>
         IsItemSeen B s' feedURL feedName channel itemID \<and>
         GetLastUpdated s' feedURL channel = now w \<and>
         readFile w' (GetBloomFilePath s feedURL channel) =
           readFile w (GetBloomFilePath s feedURL channel)"
proof -
  let ?st = "markedState B w s feedURL channel itemID"
  let ?ms = "markedStorage B w s feedURL channel itemID"
  have s': "s' = ?ms"
    using MarkItemSeen_storage[of B w s feedURL feedName channel itemID] mark by simp
  obtain e where e: "saveChannelState B w ?ms feedURL channel ?st = (Some e, w')"
      "err = SavingChannelState e"
    using mark unfolding MarkItemSeen_eq by (auto split: prod.splits)
  have l: "lookupState s' feedURL channel = Some ?st"
    unfolding s' lookupState_markedStorage by simp
  have t: "Test B (filter_cs ?st) itemID"
    using ok unfolding bloom_ok_def markedState_def by simp
  have pm: "GetBloomFilePath ?ms feedURL channel = GetBloomFilePath s feedURL channel"
    by (simp add: GetBloomFilePath_def)
  have f: "readFile w' (GetBloomFilePath s feedURL channel) =
           readFile w (GetBloomFilePath s feedURL channel)"
    using saveChannelState_failure[OF e(1)] unfolding pm .
  have u: "updatedAt ?st = now w" by (simp add: markedState_def)
  show ?thesis
    using l e t f u unfolding IsItemSeen_lookup GetLastUpdated_lookup s'[symmetric]
    by simp
qed

subsection \<open>The Bloom filter instance\<close>

lemma positions_lt: "0 < m \<Longrightarrow> p \<in> set (positions h m k x) \<Longrightarrow> p < m"
  by (auto simp: positions_def)

lemma bitsBloom_sel [simp]:
  "NewWithEstimates (bitsBloom h m k) = {}"
  "Test (bitsBloom h m k) S x = list_all (\<lambda>p. p \<in> S) (positions h m k x)"
  "Add (bitsBloom h m k) S x = S \<union> set (positions h m k x)"
  "MarshalBinary (bitsBloom h m k) S = Some (map (\<lambda>i. if i \<in> S then CHR ''1'' else CHR ''0'') [0..<m])"
  "UnmarshalBinary (bitsBloom h m k) bs =
     (if length bs = m then Some (set (filter (\<lambda>i. bs ! i = CHR ''1'') [0..<m])) else None)"
  by (simp_all add: bitsBloom_def)

lemma bitsBloom_ok:
  assumes "0 < m"
  shows "bloom_ok (bitsBloom h m k)"
proof -
  have rt: "list_all (\<lambda>p. p \<in> set (filter (\<lambda>i. map (\<lambda>i. if i \<in> S then CHR ''1'' else CHR ''0'') [0..<m] ! i = CHR ''1'') [0..<m]))
              (positions h m k x)
          = list_all (\<lambda>p. p \<in> S) (positions h m k x)" for S x
    using positions_lt[OF assms, of _ h k x] by (auto simp: list_all_iff)
  show ?thesis
    unfolding bloom_ok_def
    using assms rt by (auto simp: list_all_iff)
qed

lemma smallBloom_ok: "bloom_ok smallBloom"
  unfolding smallBloom_def by (rule bitsBloom_ok) simp


lemma bitsBloom_false_positive:
  assumes "0 < m"
  shows "\<exists>x y. x \<noteq> y \<and> Test (bitsBloom h m k) (Add (bitsBloom h m k) S x) y"
proof -
  define f where "f = (\<lambda>x. set (positions h m k x))"
  have sub: "f x \<subseteq> {..<m}" for x
    unfolding f_def using positions_lt[OF assms, of _ h k x] by (simp add: subset_iff)
  have "range f \<subseteq> Pow {..<m}"
    using sub by (simp add: image_subset_iff)
  then have fin: "finite (f ` (UNIV :: string set))"
    by (rule finite_subset) simp
  have inf: "infinite (UNIV :: string set)"
    by (rule infinite_UNIV_listI)
  obtain x0 where x0: "infinite {x \<in> (UNIV :: string set). f x = f x0}"
    using pigeonhole_infinite[OF inf fin] by (elim bexE)
  have "\<exists>y. f y = f x0 \<and> y \<noteq> x0"
  proof (rule ccontr)
    assume "\<not> (\<exists>y. f y = f x0 \<and> y \<noteq> x0)"
    then have "{x \<in> UNIV. f x = f x0} \<subseteq> {x0}" by (simp add: subset_iff)
    then have "finite {x \<in> UNIV. f x = f x0}" by (rule finite_subset) simp
    with x0 show False by simp
  qed
  then obtain y where y: "f y = f x0" "y \<noteq> x0" by (elim exE conjE)
  have "list_all (\<lambda>p. p \<in> S \<union> f x0) (positions h m k y)"
    using y(1) unfolding f_def by (simp add: list_all_iff)
  then have "Test (bitsBloom h m k) (Add (bitsBloom h m k) S x0) y"
    by (simp add: f_def)
  then show ?thesis using y(2) by (intro exI[of _ x0] exI[of _ y]) simp
qed

lemma positions_smallBloom:
  "positions lenHash 8 2 x = [length x mod 8, (length x + 3) mod 8]"
  by (simp add: positions_def lenHash_def numeral_2_eq_2)

subsection \<open>Evaluating the store in a world without failures\<close>

lemma saveChannelState_fields:
  "fails (snd (saveChannelState B w s f c st)) = fails w \<and>
   now (snd (saveChannelState B w s f c st)) = now w"
  unfolding saveChannelState_def Let_def
  by (auto split: option.splits simp: renameFile_def readFile_def writeFile_def)

lemma MarkItemSeen_fields:
  "fails (snd (snd (MarkItemSeen B w s f n c x))) = fails w \<and>
   now (snd (snd (MarkItemSeen B w s f n c x))) = now w"
  using saveChannelState_fields[of B w "markedStorage B w s f c x" f c "markedState B w s f c x"]
  unfolding MarkItemSeen_eq by (auto split: prod.splits)

lemma saveChannelState_noFaults:
  assumes "fails w = noFaults" "MarshalBinary B (filter_cs st) = Some filterData"
  shows "fst (saveChannelState B w s f c st) = None"
  using assms unfolding saveChannelState_def Let_def by (simp add: noFaults_def)

lemma MarkItemSeen_noFaults:
  assumes "fails w = noFaults"
    and "MarshalBinary B (filter_cs (markedState B w s f c x)) = Some filterData"
  shows "fst (MarkItemSeen B w s f n c x) = None"
  using saveChannelState_noFaults[OF assms, of "markedStorage B w s f c x" f c]
  unfolding MarkItemSeen_eq by (auto split: prod.splits)

lemma readFile_now [simp]: "readFile (w\<lparr>now := t\<rparr>) p = readFile w p"
  by (simp add: readFile_def)

lemma time_Since_small:
  "minDuration \<le> a - b \<Longrightarrow> a - b \<le> maxDuration \<Longrightarrow> time_Since a b = a - b"
  by (simp add: time_Since_def)

text \<open>An instance: a mark at time 1000 in an empty data directory, and a load of the bucket
  one day later.\<close>

lemma marked_item_stays_seen_example:
  "bloom_ok smallBloom \<and>
   (case MarkItemSeen smallBloom \<lparr>files = [], now = 1000, fails = noFaults\<rparr>
           (emptyStorage ''data'') ''F'' ''feed'' ''a'' ''x'' of
      (r, s1, w1) \<Rightarrow>
        r = None \<and>
        IsItemSeen smallBloom s1 ''F'' ''feed'' ''a'' ''x'' \<and>
        time_Since Day (time_Unix_nano (UnixNano_u64 1000)) \<le> stateExpirationDuration \<and>
        (\<exists>s2. loadChannelState smallBloom (w1\<lparr>now := Day\<rparr>) (emptyStorage ''data'') ''F'' ''a'' = Inr s2 \<and>
              IsItemSeen smallBloom s2 ''F'' ''feed'' ''a'' ''x''))"
proof -
  let ?w = "\<lparr>files = [], now = 1000, fails = noFaults\<rparr>"
  let ?s = "emptyStorage ''data'' :: (nat set) Storage"
  obtain r s1 w1 where m: "MarkItemSeen smallBloom ?w ?s ''F'' ''feed'' ''a'' ''x'' = (r, s1, w1)"
    by (cases "MarkItemSeen smallBloom ?w ?s ''F'' ''feed'' ''a'' ''x''") auto
  have r: "r = None"
    using MarkItemSeen_noFaults[of ?w smallBloom ?s "''F''" "''a''" "''x''" _ "''feed''"] m
    by (simp add: smallBloom_def)
  have f: "fails w1 = noFaults"
    using MarkItemSeen_fields[of smallBloom ?w ?s "''F''" "''feed''" "''a''" "''x''"] m by simp
  have t: "time_Since Day (time_Unix_nano (UnixNano_u64 1000)) \<le> stateExpirationDuration"
    by (simp add: UnixNano_in_range time_Since_def Day_def Hour_def stateExpirationDuration_def
          minDuration_def maxDuration_def)
  have h: "r = None \<and>
          dataDir ?s = dataDir ?s \<and>
          readFile (w1\<lparr>now := Day\<rparr>) (GetBloomFilePath ?s ''F'' ''a'') =
            readFile w1 (GetBloomFilePath ?s ''F'' ''a'') \<and>
          \<not> fails (w1\<lparr>now := Day\<rparr>) SysStat (GetBloomFilePath ?s ''F'' ''a'') \<and>
          \<not> fails (w1\<lparr>now := Day\<rparr>) SysOpenRead (GetBloomFilePath ?s ''F'' ''a'') \<and>
          \<not> fails (w1\<lparr>now := Day\<rparr>) SysReadTimestamp (GetBloomFilePath ?s ''F'' ''a'') \<and>
          \<not> fails (w1\<lparr>now := Day\<rparr>) SysReadFilter (GetBloomFilePath ?s ''F'' ''a'') \<and>
          time_Since (now (w1\<lparr>now := Day\<rparr>)) (time_Unix_nano (UnixNano_u64 (now ?w))) \<le> stateExpirationDuration"
    using r f t by (simp add: noFaults_def)
  have c: "IsItemSeen smallBloom (fst (markAll smallBloom w1 s1 [])) ''F'' ''feed'' ''a'' ''x'' \<and>
      (\<exists>s2. loadChannelState smallBloom (w1\<lparr>now := Day\<rparr>) ?s ''F'' ''a'' = Inr s2 \<and>
         IsItemSeen smallBloom (fst (markAll smallBloom (w1\<lparr>now := Day\<rparr>) s2 [])) ''F'' ''feed'' ''a'' ''x'')"
    using marked_item_stays_seen[OF smallBloom_ok m, of "[]" ?s "w1\<lparr>now := Day\<rparr>" "[]"] h
    by blast
  show ?thesis
    using smallBloom_ok r t c by (simp add: m)
qed

text \<open>The witness of C10: the rename of the temporary file fails.\<close>

theorem MarkItemSeen_not_atomic_witness:
  "bloom_ok smallBloom \<and>
   (case MarkItemSeen smallBloom \<lparr>files = [], now = 1000, fails = (\<lambda>c p. c = SysRename)\<rparr>
           (emptyStorage ''data'') ''F'' ''feed'' ''a'' ''x'' of
      (r, s', w') \<Rightarrow>
        r = Some (SavingChannelState RenameError) \<and>
        IsItemSeen smallBloom s' ''F'' ''feed'' ''a'' ''x'' \<and>
        GetLastUpdated s' ''F'' ''a'' = 1000 \<and>
        readFile w' (GetBloomFilePath (emptyStorage ''data'' :: (nat set) Storage) ''F'' ''a'') = None)"
proof -
  let ?w = "\<lparr>files = [], now = 1000, fails = (\<lambda>c p. c = SysRename)\<rparr>"
  let ?s = "emptyStorage ''data'' :: (nat set) Storage"
  obtain r s' w' where m: "MarkItemSeen smallBloom ?w ?s ''F'' ''feed'' ''a'' ''x'' = (r, s', w')"
    by (cases "MarkItemSeen smallBloom ?w ?s ''F'' ''feed'' ''a'' ''x''") auto
  have r: "r = Some (SavingChannelState RenameError)"
    using m unfolding MarkItemSeen_eq saveChannelState_def Let_def
    by (auto simp: smallBloom_def split: prod.splits)
  have e: "readFile ?w (GetBloomFilePath ?s ''F'' ''a'') = None"
    by (simp add: readFile_def)
  show ?thesis
    using MarkItemSeen_not_atomic[OF smallBloom_ok m[unfolded r]] smallBloom_ok r e
    by (simp add: m)
qed

text \<open>
  C8 (amended). After any marks, \<open>IsItemSeen\<close> for a pair and an id is false when the
  pair has no bucket (none was loaded and nothing was marked for it); otherwise it is the
  filter's test of the id on the bucket's filter, which is the loaded or new filter with
  the ids marked for the pair added. Nothing more is promised for an id that was never
  marked: the test may be positive.
\<close>

theorem IsItemSeen_is_filter_test:
  "IsItemSeen B (fst (markAll B w s calls)) feedURL feedName channel itemID =
     (case lookupState s feedURL channel of
        None \<Rightarrow>
          markedIDs calls feedURL channel \<noteq> [] \<and>
          Test B (foldl (Add B) (NewWithEstimates B) (markedIDs calls feedURL channel)) itemID
      | Some state \<Rightarrow>
          Test B (foldl (Add B) (filter_cs state) (markedIDs calls feedURL channel)) itemID)"
  unfolding IsItemSeen_filterOf filterOf_markAll
  by (cases "markedIDs calls feedURL channel")
     (simp_all add: filterOf_def del: foldl_Cons split: option.splits)

text \<open>
  C8 as stated fails: with the Bloom filter of 8 bits and 2 positions, after the id
  \<open>x\<close> alone has been marked for a pair, the id \<open>y\<close>, never passed to
  \<open>MarkItemSeen\<close>, is reported seen for that pair. (By \<open>bitsBloom_false_positive\<close>
  such a pair of ids exists for every hash and every size of the filter.)
\<close>

theorem IsItemSeen_false_positive_counterexample:
  "IsItemSeen smallBloom
     (fst (markAll smallBloom \<lparr>files = [], now = 0, fails = noFaults\<rparr> (emptyStorage ''data'')
        [\<lparr>mc_now = 1000, mc_fails = noFaults, mc_feedURL = ''F'', mc_feedName = ''feed'',
          mc_channel = ''a'', mc_itemID = ''x''\<rparr>]))
     ''F'' ''feed'' ''a'' ''y''
   \<and> ''y'' \<notin> set (markedIDs
        [\<lparr>mc_now = 1000, mc_fails = noFaults, mc_feedURL = ''F'', mc_feedName = ''feed'',
          mc_channel = ''a'', mc_itemID = ''x''\<rparr>] ''F'' ''a'')"
  unfolding IsItemSeen_filterOf filterOf_markAll
  by (simp add: markedIDs_def filterOf_def lookupState_def emptyStorage_def smallBloom_def
        positions_smallBloom)

lemma lookupState_freshState:
  "lookupState (freshState B w s f c) f' c' =
     (if f' = f then (if c' = c then Some \<lparr>filter_cs = NewWithEstimates B, updatedAt = now w\<rparr> else None)
      else lookupState s f' c')"
  by (simp add: freshState_def lookupState_def)

lemma loadChannelState_expired:
  assumes stored: "readFile w (GetBloomFilePath s f c) = Some (PutUint64 (UnixNano_u64 t) @ rest)"
    and io: "\<not> fails w SysStat (GetBloomFilePath s f c)"
            "\<not> fails w SysOpenRead (GetBloomFilePath s f c)"
            "\<not> fails w SysReadTimestamp (GetBloomFilePath s f c)"
    and old: "time_Since (now w) (time_Unix_nano (UnixNano_u64 t)) > stateExpirationDuration"
  shows "loadChannelState B w s f c = Inr (freshState B w s f c)"
  using old unfolding loadChannelState_def Let_def
  by (simp add: stored io Uint64_PutUint64 length_PutUint64)

lemma loadChannelState_absent:
  assumes "readFile w (GetBloomFilePath s f c) = None" "\<not> fails w SysStat (GetBloomFilePath s f c)"
  shows "loadChannelState B w s f c = Inr (freshState B w s f c)"
  using assms unfolding loadChannelState_def Let_def by simp

lemma loadChannelState_dataDir:
  "loadChannelState B w s f c = Inr s' \<Longrightarrow> dataDir s' = dataDir s"
  unfolding loadChannelState_def Let_def freshState_def
  by (auto split: if_splits option.splits)

lemma bucket_paths:
  "''data/YXxG.bloom'' = GetBloomFilePath (emptyStorage ''data'') ''F'' ''a''"
  "''data/YnxG.bloom'' = GetBloomFilePath (emptyStorage ''data'') ''F'' ''b''"
  by (simp_all add: GetBloomFilePath_def filepath_Join_def GenerateBloomFileName_def
        bloomFileSuffix_def emptyStorage_def enc6_def encodeURL_def padChar_def)

lemma emptyStorage_sel [simp]:
  "dataDir (emptyStorage dir) = dir" "lookupState (emptyStorage dir) f c = None"
  by (simp_all add: emptyStorage_def lookupState_def)

lemma GetBloomFilePath_cong:
  "dataDir s = dir \<Longrightarrow> GetBloomFilePath s f c = GetBloomFilePath (emptyStorage dir) f c"
  by (simp add: GetBloomFilePath_def)

text \<open>
  C3, at the failing input. The data directory holds the bucket files of two channels of
  the feed \<open>F\<close>: channel \<open>a\<close>, written a day ago and holding the id \<open>x\<close>, and
  channel \<open>b\<close>, written 40 days ago. Alone, the file of \<open>a\<close> loads and \<open>x\<close> is
  seen. With both files, \<open>NewStorage\<close> loads \<open>a\<close>, then finds \<open>b\<close> expired and
  replaces the whole channel map of \<open>F\<close>: the bucket of \<open>a\<close> is gone.
\<close>

theorem expired_sibling_drops_loaded_bucket:
  "(case NewStorage smallBloom
          \<lparr>files = [(''data/YXxG.bloom'', PutUint64 (UnixNano_u64 (39 * Day)) @ ''01001000'')],
            now = 40 * Day, fails = noFaults\<rparr> ''data'' of
      Inl e \<Rightarrow> False
    | Inr s \<Rightarrow> IsItemSeen smallBloom s ''F'' ''feed'' ''a'' ''x'')
   \<and>
   (case NewStorage smallBloom
          \<lparr>files = [(''data/YXxG.bloom'', PutUint64 (UnixNano_u64 (39 * Day)) @ ''01001000''),
                     (''data/YnxG.bloom'', PutUint64 (UnixNano_u64 0) @ ''00100100'')],
            now = 40 * Day, fails = noFaults\<rparr> ''data'' of
      Inl e \<Rightarrow> False
    | Inr s \<Rightarrow> lookupState s ''F'' ''a'' = None \<and>
               \<not> IsItemSeen smallBloom s ''F'' ''feed'' ''a'' ''x'')"
proof -
  let ?ca = "PutUint64 (UnixNano_u64 (39 * Day)) @ ''01001000''"
  let ?cb = "PutUint64 (UnixNano_u64 0) @ ''00100100''"
  let ?w1 = "\<lparr>files = [(''data/YXxG.bloom'', ?ca)], now = 40 * Day, fails = noFaults\<rparr>"
  let ?w2 = "\<lparr>files = [(''data/YXxG.bloom'', ?ca), (''data/YnxG.bloom'', ?cb)],
              now = 40 * Day, fails = noFaults\<rparr>"
  let ?e = "emptyStorage ''data'' :: (nat set) Storage"
  let ?pa = "GetBloomFilePath ?e ''F'' ''a''"
  let ?pb = "GetBloomFilePath ?e ''F'' ''b''"
  have g1: "filepath_Glob ?w1 ''data'' bloomFileSuffix = [?pa]"
    unfolding bucket_paths[symmetric]
    by (simp add: filepath_Glob_def globMatch_def bloomFileSuffix_def suffix_def)
  have g2: "filepath_Glob ?w2 ''data'' bloomFileSuffix = [?pa, ?pb]"
    unfolding bucket_paths[symmetric]
    by (simp add: filepath_Glob_def globMatch_def bloomFileSuffix_def suffix_def)
  have ra1: "readFile ?w1 ?pa = Some ?ca"
    unfolding bucket_paths[symmetric] by (simp add: readFile_def)
  have ra2: "readFile ?w2 ?pa = Some ?ca"
    unfolding bucket_paths[symmetric] by (simp add: readFile_def)
  have rb2: "readFile ?w2 ?pb = Some ?cb"
    unfolding bucket_paths[symmetric] by (simp add: readFile_def)
  have ta: "time_Unix_nano (UnixNano_u64 (39 * Day)) = 39 * Day"
    by (rule UnixNano_in_range) (simp_all add: Day_def Hour_def)
  have tb: "time_Unix_nano (UnixNano_u64 0) = 0"
    by (rule UnixNano_in_range) simp_all
  have fresh_a: "time_Since (40 * Day) (time_Unix_nano (UnixNano_u64 (39 * Day))) \<le> stateExpirationDuration"
    unfolding ta
    by (simp add: time_Since_def Day_def Hour_def stateExpirationDuration_def minDuration_def maxDuration_def)
  have old_b: "time_Since (40 * Day) (time_Unix_nano (UnixNano_u64 0)) > stateExpirationDuration"
    unfolding tb
    by (simp add: time_Since_def Day_def Hour_def stateExpirationDuration_def minDuration_def maxDuration_def)
  have un: "UnmarshalBinary smallBloom ''01001000'' = Some {1, 4}"
    by (auto simp: smallBloom_def nth_Cons' split: if_splits)
  obtain sa where sa: "loadChannelState smallBloom ?w1 ?e ''F'' ''a'' = Inr sa"
      "lookupState sa ''F'' ''a'' = Some \<lparr>filter_cs = {1, 4}, updatedAt = time_Unix_nano (UnixNano_u64 (39 * Day))\<rparr>"
    using loadChannelState_stored[of ?w1 ?e "''F''" "''a''" "39 * Day" "''01001000''" smallBloom "{1, 4}"]
      ra1 fresh_a un by (auto simp: noFaults_def)
  obtain sa2 where sa2: "loadChannelState smallBloom ?w2 ?e ''F'' ''a'' = Inr sa2"
    using loadChannelState_stored[of ?w2 ?e "''F''" "''a''" "39 * Day" "''01001000''" smallBloom "{1, 4}"]
      ra2 fresh_a un by (auto simp: noFaults_def)
  have pb': "GetBloomFilePath sa2 ''F'' ''b'' = ?pb"
    by (rule GetBloomFilePath_cong) (simp add: loadChannelState_dataDir[OF sa2])
  have lb: "loadChannelState smallBloom ?w2 sa2 ''F'' ''b'' = Inr (freshState smallBloom ?w2 sa2 ''F'' ''b'')"
    by (rule loadChannelState_expired[where t=0 and rest="''00100100''"])
       (simp_all add: pb' rb2 noFaults_def old_b)
  have n1: "NewStorage smallBloom ?w1 ''data'' = Inr sa"
    unfolding NewStorage_def g1
    by (simp add: noFaults_def emptyStorage_def[symmetric] loadFiles_bucket_file sa(1) del: loadFiles.simps)
       simp
  have n2: "NewStorage smallBloom ?w2 ''data'' = Inr (freshState smallBloom ?w2 sa2 ''F'' ''b'')"
    unfolding NewStorage_def g2
    by (simp add: noFaults_def emptyStorage_def[symmetric] loadFiles_bucket_file sa2 lb del: loadFiles.simps)
       simp
  have seen: "IsItemSeen smallBloom sa ''F'' ''feed'' ''a'' ''x''"
    unfolding IsItemSeen_lookup sa(2)
    by (simp add: smallBloom_def positions_smallBloom)
  show ?thesis
    unfolding n1 n2 using seen
    by (simp add: IsItemSeen_lookup lookupState_freshState)
qed

lemma saveChannelState_noFaults_files:
  assumes "fails w = noFaults" "MarshalBinary B (filter_cs st) = Some filterData"
  shows "saveChannelState B w s f c st =
     (None, w\<lparr>files := (GetBloomFilePath s f c, PutUint64 (UnixNano_u64 (now w)) @ filterData) #
                 filter (\<lambda>e. fst e \<noteq> GetBloomFilePath s f c @ ''.tmp'' \<and>
                             fst e \<noteq> GetBloomFilePath s f c) (files w)\<rparr>)"
  using assms unfolding saveChannelState_def Let_def
  by (auto simp add: noFaults_def renameFile_def readFile_def writeFile_def intro!: filter_cong)

lemma marshal_x: "MarshalBinary smallBloom (Add smallBloom (NewWithEstimates smallBloom) ''x'') = Some ''01001000''"
  by (simp add: smallBloom_def positions_smallBloom upt_rec[of _ "numeral _"] upt_rec[of _ "Suc _"])

text \<open>
  C2, at the failing input. The data directory holds the bucket file of channel \<open>b\<close> of
  the feed \<open>F\<close>, written 40 days ago. The process starts (\<open>NewStorage\<close>), and
  \<open>MarkItemSeen\<close> of the id \<open>x\<close> for channel \<open>a\<close> of \<open>F\<close> succeeds: \<open>x\<close> is
  seen, and the bucket file of \<open>a\<close> is written. A day later the stored timestamp of
  \<open>a\<close> is within the expiration window, and \<open>loadChannelState\<close> of \<open>a\<close> alone gives
  a store in which \<open>x\<close> is seen. But the reload of the program is \<open>NewStorage\<close>: it
  loads \<open>a\<close>, then finds \<open>b\<close> expired and replaces the whole channel map of \<open>F\<close>;
  in the store it returns the pair has no bucket and \<open>x\<close> is not seen, although the
  bucket of \<open>a\<close> did not expire.
\<close>

theorem restart_loses_marked_item:
  "(case NewStorage smallBloom
          \<lparr>files = [(''data/YnxG.bloom'', PutUint64 (UnixNano_u64 0) @ ''00100100'')],
            now = 40 * Day, fails = noFaults\<rparr> ''data'' of
      Inl e \<Rightarrow> False
    | Inr s0 \<Rightarrow>
        (case MarkItemSeen smallBloom
                \<lparr>files = [(''data/YnxG.bloom'', PutUint64 (UnixNano_u64 0) @ ''00100100'')],
                  now = 40 * Day, fails = noFaults\<rparr> s0 ''F'' ''feed'' ''a'' ''x'' of
           (r, s1, w1) \<Rightarrow>
             r = None \<and>
             IsItemSeen smallBloom s1 ''F'' ''feed'' ''a'' ''x'' \<and>
             readFile w1 ''data/YXxG.bloom'' =
               Some (PutUint64 (UnixNano_u64 (40 * Day)) @ ''01001000'') \<and>
             time_Since (41 * Day) (time_Unix_nano (UnixNano_u64 (40 * Day)))
               \<le> stateExpirationDuration \<and>
             (case loadChannelState smallBloom (w1\<lparr>now := 41 * Day\<rparr>) (emptyStorage ''data'')
                     ''F'' ''a'' of
                Inl e \<Rightarrow> False
              | Inr s \<Rightarrow> IsItemSeen smallBloom s ''F'' ''feed'' ''a'' ''x'') \<and>
             (case NewStorage smallBloom (w1\<lparr>now := 41 * Day\<rparr>) ''data'' of
                Inl e \<Rightarrow> False
              | Inr s2 \<Rightarrow> lookupState s2 ''F'' ''a'' = None \<and>
                          \<not> IsItemSeen smallBloom s2 ''F'' ''feed'' ''a'' ''x'')))"
proof -
  let ?ca = "PutUint64 (UnixNano_u64 (40 * Day)) @ ''01001000''"
  let ?cb = "PutUint64 (UnixNano_u64 0) @ ''00100100''"
  let ?w0 = "\<lparr>files = [(''data/YnxG.bloom'', ?cb)], now = 40 * Day, fails = noFaults\<rparr>"
  let ?w1 = "\<lparr>files = [(''data/YXxG.bloom'', ?ca), (''data/YnxG.bloom'', ?cb)],
              now = 40 * Day, fails = noFaults\<rparr>"
  let ?w2 = "\<lparr>files = [(''data/YXxG.bloom'', ?ca), (''data/YnxG.bloom'', ?cb)],
              now = 41 * Day, fails = noFaults\<rparr>"
  let ?e = "emptyStorage ''data'' :: (nat set) Storage"
  let ?pa = "GetBloomFilePath ?e ''F'' ''a''"
  let ?pb = "GetBloomFilePath ?e ''F'' ''b''"
  let ?s0 = "freshState smallBloom ?w0 ?e ''F'' ''b''"
  let ?s1 = "markedStorage smallBloom ?w0 ?s0 ''F'' ''a'' ''x''"
  txt \<open>Start-up.\<close>
  have g0: "filepath_Glob ?w0 ''data'' bloomFileSuffix = [?pb]"
    unfolding bucket_paths[symmetric]
    by (simp add: filepath_Glob_def globMatch_def bloomFileSuffix_def suffix_def)
  have rb0: "readFile ?w0 ?pb = Some ?cb"
    unfolding bucket_paths[symmetric] by (simp add: readFile_def)
  have tb: "time_Unix_nano (UnixNano_u64 0) = 0"
    by (rule UnixNano_in_range) simp_all
  have old_b0: "time_Since (40 * Day) (time_Unix_nano (UnixNano_u64 0)) > stateExpirationDuration"
    unfolding tb
    by (simp add: time_Since_def Day_def Hour_def stateExpirationDuration_def minDuration_def maxDuration_def)
  have lb0: "loadChannelState smallBloom ?w0 ?e ''F'' ''b'' = Inr ?s0"
    by (rule loadChannelState_expired[where t=0 and rest="''00100100''"])
       (simp_all add: rb0 noFaults_def old_b0)
  have n0: "NewStorage smallBloom ?w0 ''data'' = Inr ?s0"
    unfolding NewStorage_def g0
    by (simp add: noFaults_def emptyStorage_def[symmetric] loadFiles_bucket_file lb0 del: loadFiles.simps)
       simp
  txt \<open>The mark.\<close>
  have d0: "dataDir ?s0 = ''data''"
    by (simp add: freshState_def)
  have l0: "lookupState ?s0 ''F'' ''a'' = None"
    by (simp add: lookupState_freshState)
  have ms: "markedState smallBloom ?w0 ?s0 ''F'' ''a'' ''x'' =
      \<lparr>filter_cs = Add smallBloom (NewWithEstimates smallBloom) ''x'', updatedAt = 40 * Day\<rparr>"
    by (simp add: markedState_def l0)
  have pa1: "GetBloomFilePath ?s1 ''F'' ''a'' = ?pa"
    by (rule GetBloomFilePath_cong) (simp add: d0)
  have sv: "saveChannelState smallBloom ?w0 ?s1 ''F'' ''a''
              (markedState smallBloom ?w0 ?s0 ''F'' ''a'' ''x'') = (None, ?w1)"
    using saveChannelState_noFaults_files[of ?w0 smallBloom
        "markedState smallBloom ?w0 ?s0 ''F'' ''a'' ''x''" "''01001000''" ?s1 "''F''" "''a''"]
    unfolding pa1 bucket_paths[symmetric]
    by (simp add: ms marshal_x)
  have m: "MarkItemSeen smallBloom ?w0 ?s0 ''F'' ''feed'' ''a'' ''x'' = (None, ?s1, ?w1)"
    unfolding MarkItemSeen_eq sv by simp
  have seen1: "IsItemSeen smallBloom ?s1 ''F'' ''feed'' ''a'' ''x''"
    unfolding IsItemSeen_lookup lookupState_markedStorage ms
    by (simp add: smallBloom_def positions_smallBloom)
  txt \<open>The restart, a day later.\<close>
  have g2: "filepath_Glob ?w2 ''data'' bloomFileSuffix = [?pa, ?pb]"
    unfolding bucket_paths[symmetric]
    by (simp add: filepath_Glob_def globMatch_def bloomFileSuffix_def suffix_def)
  have ra1: "readFile ?w1 ''data/YXxG.bloom'' = Some ?ca"
    by (simp add: readFile_def)
  have ra2: "readFile ?w2 ?pa = Some ?ca"
    unfolding bucket_paths[symmetric] by (simp add: readFile_def)
  have rb2: "readFile ?w2 ?pb = Some ?cb"
    unfolding bucket_paths[symmetric] by (simp add: readFile_def)
  have ta: "time_Unix_nano (UnixNano_u64 (40 * Day)) = 40 * Day"
    by (rule UnixNano_in_range) (simp_all add: Day_def Hour_def)
  have fresh_a: "time_Since (41 * Day) (time_Unix_nano (UnixNano_u64 (40 * Day))) \<le> stateExpirationDuration"
    unfolding ta
    by (simp add: time_Since_def Day_def Hour_def stateExpirationDuration_def minDuration_def maxDuration_def)
  have old_b: "time_Since (41 * Day) (time_Unix_nano (UnixNano_u64 0)) > stateExpirationDuration"
    unfolding tb
    by (simp add: time_Since_def Day_def Hour_def stateExpirationDuration_def minDuration_def maxDuration_def)
  have un: "UnmarshalBinary smallBloom ''01001000'' = Some {1, 4}"
    by (auto simp: smallBloom_def nth_Cons' split: if_splits)
  obtain sa where sa: "loadChannelState smallBloom ?w2 ?e ''F'' ''a'' = Inr sa"
      "lookupState sa ''F'' ''a'' = Some \<lparr>filter_cs = {1, 4}, updatedAt = time_Unix_nano (UnixNano_u64 (40 * Day))\<rparr>"
    using loadChannelState_stored[of ?w2 ?e "''F''" "''a''" "40 * Day" "''01001000''" smallBloom "{1, 4}"]
      ra2 fresh_a un by (auto simp: noFaults_def)
  have pb': "GetBloomFilePath sa ''F'' ''b'' = ?pb"
    by (rule GetBloomFilePath_cong) (simp add: loadChannelState_dataDir[OF sa(1)])
  have lb: "loadChannelState smallBloom ?w2 sa ''F'' ''b'' = Inr (freshState smallBloom ?w2 sa ''F'' ''b'')"
    by (rule loadChannelState_expired[where t=0 and rest="''00100100''"])
       (simp_all add: pb' rb2 noFaults_def old_b)
  have n2: "NewStorage smallBloom ?w2 ''data'' = Inr (freshState smallBloom ?w2 sa ''F'' ''b'')"
    unfolding NewStorage_def g2
    by (simp add: noFaults_def emptyStorage_def[symmetric] loadFiles_bucket_file sa(1) lb del: loadFiles.simps)
       simp
  have seen: "IsItemSeen smallBloom sa ''F'' ''feed'' ''a'' ''x''"
    unfolding IsItemSeen_lookup sa(2)
    by (simp add: smallBloom_def positions_smallBloom)
  have lost: "lookupState (freshState smallBloom ?w2 sa ''F'' ''b'') ''F'' ''a'' = None \<and>
      \<not> IsItemSeen smallBloom (freshState smallBloom ?w2 sa ''F'' ''b'') ''F'' ''feed'' ''a'' ''x''"
    by (simp add: IsItemSeen_lookup lookupState_freshState)
  show ?thesis
    unfolding n0 using seen1 ra1 fresh_a seen lost
    by (simp add: m sa(1) n2)
qed

subsection \<open>One delivery task\<close>

lemma bot_Send_eq:
  "bot_Send E c m st =
     (Send E (sends st) c m,
      st\<lparr>sends := sends st + 1, trace := trace st @ [EvSend c m (Send E (sends st) c m)]\<rparr>)"
  by (simp add: bot_Send_def Let_def)

lemma backoff_fields [simp]:
  "sends (ExponentialBackoffWithJitter E a st) = sends st"
  "storage (ExponentialBackoffWithJitter E a st) = storage st"
  "trace (ExponentialBackoffWithJitter E a st) = trace st @ [EvBackoff a]"
  by (simp_all add: ExponentialBackoffWithJitter_def Let_def)

lemma sendLoop_2:
  "sendLoop E c m (Suc (Suc 0)) s =
     (Send E (sends s) c m,
      s\<lparr>sends := sends s + 1, trace := trace s @ [EvSend c m (Send E (sends s) c m)]\<rparr>)"
  by (subst sendLoop.simps) (simp add: bot_Send_eq maxRetries_def del: sendLoop.simps)

lemma sendLoop_1:
  "sendLoop E c m (Suc 0) s =
     (if Send E (sends s) c m
      then (True, s\<lparr>sends := sends s + 1, trace := trace s @ [EvSend c m True]\<rparr>)
      else sendLoop E c m (Suc (Suc 0))
             (ExponentialBackoffWithJitter E (Suc 0)
                (s\<lparr>sends := sends s + 1, trace := trace s @ [EvSend c m False]\<rparr>)))"
  by (subst sendLoop.simps) (simp add: bot_Send_eq maxRetries_def del: sendLoop.simps)

lemma sendLoop_0:
  "sendLoop E c m 0 s =
     (if Send E (sends s) c m
      then (True, s\<lparr>sends := sends s + 1, trace := trace s @ [EvSend c m True]\<rparr>)
      else sendLoop E c m (Suc 0)
             (ExponentialBackoffWithJitter E 0
                (s\<lparr>sends := sends s + 1, trace := trace s @ [EvSend c m False]\<rparr>)))"
  by (subst sendLoop.simps) (simp add: bot_Send_eq maxRetries_def del: sendLoop.simps)

lemmas sendLoop_unroll = sendLoop_0 sendLoop_1 sendLoop_2

lemma sendLoop_result:
  fixes st :: "'f pstate" and E :: env and c m :: string
  defines "o0 \<equiv> Send E (sends st) c m"
    and "o1 \<equiv> Send E (sends st + 1) c m"
    and "o2 \<equiv> Send E (sends st + 2) c m"
  shows "fst (sendLoop E c m 0 st) = (o0 \<or> o1 \<or> o2)"
    and "trace (snd (sendLoop E c m 0 st)) = trace st @ retryEvents c m o0 o1 o2"
    and "storage (snd (sendLoop E c m 0 st)) = storage st"
    and "sends (snd (sendLoop E c m 0 st)) = sends st + (if o0 then 1 else if o1 then 2 else 3)"
  unfolding o0_def o1_def o2_def retryEvents_def
  by (simp_all add: sendLoop_unroll del: sendLoop.simps)

lemma markSeen_fields [simp]:
  "trace (markSeen B fc c i st) = trace st @ [EvMark (URL fc) c i]"
  "sends (markSeen B fc c i st) = sends st"
  "storage (markSeen B fc c i st) = markedStorage B (wld st) (storage st) (URL fc) c i"
  by (simp_all add: markSeen_def MarkItemSeen_eq split: prod.splits)

lemma cooldown_fields [simp]:
  "trace (cooldown st) = trace st @ [EvCooldown]"
  "sends (cooldown st) = sends st"
  "storage (cooldown st) = storage st"
  by (simp_all add: cooldown_def)

lemma deliver_result:
  fixes st :: "'f pstate" and E :: env and t :: task
  defines "o0 \<equiv> Send E (sends st) (t_channel t) (t_message t)"
    and "o1 \<equiv> Send E (sends st + 1) (t_channel t) (t_message t)"
    and "o2 \<equiv> Send E (sends st + 2) (t_channel t) (t_message t)"
  shows "trace (deliver B E fc t st) =
           trace st @ retryEvents (t_channel t) (t_message t) o0 o1 o2 @
             (if o0 \<or> o1 \<or> o2 then [EvMark (URL fc) (t_channel t) (t_itemID t), EvCooldown] else [])"
    and "sends (deliver B E fc t st) = sends st + (if o0 then 1 else if o1 then 2 else 3)"
    and "\<not> (o0 \<or> o1 \<or> o2) \<Longrightarrow> storage (deliver B E fc t st) = storage st"
proof -
  obtain ok st1 where l: "sendLoop E (t_channel t) (t_message t) 0 st = (ok, st1)"
    by (cases "sendLoop E (t_channel t) (t_message t) 0 st") auto
  have r: "ok = (o0 \<or> o1 \<or> o2)"
      "trace st1 = trace st @ retryEvents (t_channel t) (t_message t) o0 o1 o2"
      "storage st1 = storage st"
      "sends st1 = sends st + (if o0 then 1 else if o1 then 2 else 3)"
    using sendLoop_result[of E "t_channel t" "t_message t" st] l
    unfolding o0_def o1_def o2_def by simp_all
  show "trace (deliver B E fc t st) =
           trace st @ retryEvents (t_channel t) (t_message t) o0 o1 o2 @
             (if o0 \<or> o1 \<or> o2 then [EvMark (URL fc) (t_channel t) (t_itemID t), EvCooldown] else [])"
    unfolding deliver_def l using r by (simp del: sendLoop.simps)
  show "sends (deliver B E fc t st) = sends st + (if o0 then 1 else if o1 then 2 else 3)"
    unfolding deliver_def l using r by (simp del: sendLoop.simps)
  show "\<not> (o0 \<or> o1 \<or> o2) \<Longrightarrow> storage (deliver B E fc t st) = storage st"
    unfolding deliver_def l using r by (simp del: sendLoop.simps)
qed



subsection \<open>The ordering pass\<close>

lemma mset_insertBy: "mset (insertBy lt x ys) = add_mset x (mset ys)"
  by (induction ys) auto

lemma mset_sortBy: "mset (sortBy lt xs) = mset xs"
  by (induction xs) (auto simp: sortBy_def mset_insertBy)

lemma set_insertBy: "set (insertBy lt x ys) = insert x (set ys)"
  by (induction ys) auto

lemma sorted_insertBy:
  assumes "\<And>a b. lt a b = (k a < (k b :: int))"
    and "sorted_wrt (\<lambda>a b. k a \<le> k b) ys"
  shows "sorted_wrt (\<lambda>a b. k a \<le> k b) (insertBy lt x ys)"
  using assms(2)
proof (induction ys)
  case Nil
  show ?case by simp
next
  case (Cons y ys)
  show ?case
  proof (cases "lt x y")
    case True
    then have "k x < k y" using assms(1) by simp
    then show ?thesis using Cons.prems True by auto
  next
    case False
    then have "k y \<le> k x" using assms(1) by simp
    then show ?thesis using Cons False by (auto simp: set_insertBy)
  qed
qed

lemma sorted_sortBy:
  assumes "\<And>a b. lt a b = (k a < (k b :: int))"
  shows "sorted_wrt (\<lambda>a b. k a \<le> k b) (sortBy lt xs)"
  by (induction xs) (auto simp: sortBy_def intro: sorted_insertBy[OF assms])

text \<open>On items that all have a publish time, \<open>publishedBefore\<close> compares the times; an
  item without one is given the time 0 (it never occurs in the sorted list).\<close>

lemma sortBy_published:
  assumes "list_all (\<lambda>item. PublishedParsed item \<noteq> None) xs"
  shows "sorted_wrt (\<lambda>a b. \<not> publishedBefore b a) (sortBy publishedBefore xs)"
proof -
  define k where "k = (\<lambda>item :: Item. case PublishedParsed item of None \<Rightarrow> (0::int) | Some x \<Rightarrow> x)"
  define lt where "lt = (\<lambda>a b. k a < k b)"
  have eq: "insertBy publishedBefore x ys = insertBy lt x ys"
    if "PublishedParsed x \<noteq> None" "list_all (\<lambda>item. PublishedParsed item \<noteq> None) ys" for x ys
    using that
    by (induction ys) (auto simp: publishedBefore_def lt_def k_def split: option.splits)
  have all: "list_all (\<lambda>item. PublishedParsed item \<noteq> None) (sortBy lt ys)" 
    if "list_all (\<lambda>item. PublishedParsed item \<noteq> None) ys" for ys
    using that mset_sortBy[of lt ys] by (metis list_all_iff set_mset_mset)
  have seq: "sortBy publishedBefore ys = sortBy lt ys"
    if "list_all (\<lambda>item. PublishedParsed item \<noteq> None) ys" for ys
    using that
  proof (induction ys)
    case Nil
    show ?case by (simp add: sortBy_def)
  next
    case (Cons y ys)
    have a: "list_all (\<lambda>item. PublishedParsed item \<noteq> None) ys" "PublishedParsed y \<noteq> None"
      using Cons.prems by auto
    have "sortBy publishedBefore (y # ys) = insertBy publishedBefore y (sortBy publishedBefore ys)"
      by (simp add: sortBy_def)
    also have "\<dots> = insertBy publishedBefore y (sortBy lt ys)"
      using Cons.IH[OF a(1)] by simp
    also have "\<dots> = insertBy lt y (sortBy lt ys)"
      by (rule eq[OF a(2) all[OF a(1)]])
    finally show ?case by (simp add: sortBy_def)
  qed
  have s: "sorted_wrt (\<lambda>a b. k a \<le> k b) (sortBy lt xs)"
    by (rule sorted_sortBy) (simp add: lt_def)
  have "sorted_wrt (\<lambda>a b. \<not> publishedBefore b a) (sortBy lt xs)"
    using s
    by (rule sorted_wrt_mono_rel[rotated])
       (auto simp: publishedBefore_def k_def split: option.splits)
  then show ?thesis using seq[OF assms] by simp
qed

lemma testEnv_sort_ok: "sort_Slice_ok (testEnv items outcomes)"
  unfolding sort_Slice_ok_def
  by (simp add: testEnv_def mset_sortBy sortBy_published)

lemma set_orderItems:
  assumes "sort_Slice_ok E"
  shows "set (orderItems E xs) = set xs"
proof -
  let ?wt = "filter (\<lambda>item. PublishedParsed item \<noteq> None) xs"
  have "list_all (\<lambda>item. PublishedParsed item \<noteq> None) ?wt"
    by (simp add: list_all_iff)
  then have "mset (sort_Slice E publishedBefore ?wt) = mset ?wt"
    using assms unfolding sort_Slice_ok_def by blast
  then have e: "set (sort_Slice E publishedBefore ?wt) = set ?wt"
    by (metis set_mset_mset)
  show ?thesis
  proof (cases "?wt = []")
    case True
    then have "filter (\<lambda>item. PublishedParsed item = None) xs = xs"
      by (simp add: filter_empty_conv filter_id_conv)
    then show ?thesis
      unfolding orderItems_def Let_def using True by simp
  next
    case False
    then show ?thesis
      unfolding orderItems_def Let_def using e by auto
  qed
qed



subsection \<open>The candidate loop\<close>

lemma wrap64_in_range:
  "- (2 ^ 63) \<le> x \<Longrightarrow> x < 2 ^ 63 \<Longrightarrow> wrap64 x = x"
  unfolding wrap64_def by (simp add: sint_sbintrunc' signed_take_bit_int_eq_self)

lemma isStale_unconfigured:
  "ArticleExpirationDurationHours fc = None \<Longrightarrow> \<not> isStale w fc item"
  by (simp add: isStale_def split: option.splits)

lemma startState_sel [simp]:
  "storage (startState t) = emptyStorage ''data''"
  "wld (startState t) = \<lparr>files = [], now = t, fails = noFaults\<rparr>"
  "sends (startState t) = 0"
  "trace (startState t) = []"
  by (simp_all add: startState_def)

lemma IsItemSeen_emptyStorage [simp]:
  "\<not> IsItemSeen B (emptyStorage dir) f n c x"
  by (simp add: IsItemSeen_lookup)

text \<open>
  C6, at the failing input. An item published 365 days ago, in a feed that does not
  configure \<open>article_expiration_duration_hours\<close>: its age is beyond 30 days, and the
  candidate loop of \<open>processFeed\<close> keeps it. The loop of internal/rss/handler.go, with
  its fixed 30 days, skips it, and so does \<open>processFeed\<close> when the feed configures
  720 hours.
\<close>

theorem unconfigured_expiration_keeps_old_item:
  "time_Since (now (wld (startState (365 * Day)))) 0 > articleExpirationDuration \<and>
   fst (filterItems smallBloom (testEnv [] []) (testFeed None True) False
          [testItem ''g1'' ''old'' (Some 0)] [] [] (startState (365 * Day)))
     = [testItem ''g1'' ''old'' (Some 0)] \<and>
   filterItems_handler smallBloom (testEnv [] []) (testFeed None True)
          [testItem ''g1'' ''old'' (Some 0)] [] [] (startState (365 * Day))
     = [] \<and>
   fst (filterItems smallBloom (testEnv [] []) (testFeed (Some 720) True) False
          [testItem ''g1'' ''old'' (Some 0)] [] [] (startState (365 * Day)))
     = []"
proof -
  have age: "time_Since (365 * Day) 0 = 365 * Day"
    by (simp add: time_Since_def Day_def Hour_def minDuration_def maxDuration_def)
  have w: "wrap64 (720 * Hour) = 720 * Hour"
    by (rule wrap64_in_range) (simp_all add: Hour_def)
  have old: "365 * Day > articleExpirationDuration" "365 * Day > 720 * Hour"
    by (simp_all add: articleExpirationDuration_def Day_def Hour_def)
  have id: "generateItemID E (testItem ''g1'' ''old'' p) = ''g1''" for E p
    by (simp add: generateItemID_def testItem_def)
  have f: "Title (testItem ''g1'' ''old'' p) = ''old''"
      "PublishedParsed (testItem ''g1'' ''old'' p) = p" for p
    by (simp_all add: testItem_def)
  have c: "Channels (testFeed h b) = [''a'']" "ArticleExpirationDurationHours (testFeed h b) = h"
      "FirstPush (testFeed h b) = b" for h b
    by (simp_all add: testFeed_def)
  show ?thesis
    using old
    by (simp add: age w id f c isStale_def isStale_handler_def)
qed

subsection \<open>The first run of a feed\<close>

lemma isFirstRun_no_files:
  assumes "\<forall>c \<in> set channels. readFile w (GetBloomFilePath s feedURL c) = None"
  shows "isFirstRun w s feedURL channels"
  using assms by (induction channels) (auto simp: stat_ok_def)

lemma markChannels_trace:
  "trace (markChannels B fc itemID channels st) =
     trace st @ map (\<lambda>c. EvMark (URL fc) c itemID) channels"
  by (induction channels arbitrary: st) auto

lemma markChannels_sends [simp]:
  "sends (markChannels B fc itemID channels st) = sends st"
  by (induction channels arbitrary: st) auto

lemma IsItemSeen_markedStorage_mono:
  assumes "bloom_ok B" "IsItemSeen B s f n c x"
  shows "IsItemSeen B (markedStorage B w s f' c' x') f n' c x"
  using assms unfolding IsItemSeen_lookup lookupState_markedStorage markedState_def bloom_ok_def
  by (auto split: option.splits)

lemma IsItemSeen_markedStorage_self:
  assumes "bloom_ok B"
  shows "IsItemSeen B (markedStorage B w s f c x) f n c x"
  using assms unfolding IsItemSeen_lookup lookupState_markedStorage markedState_def bloom_ok_def
  by simp

lemma markChannels_mono:
  assumes "bloom_ok B" "IsItemSeen B (storage st) f n c x"
  shows "IsItemSeen B (storage (markChannels B fc itemID channels st)) f n c x"
  using assms(2)
proof (induction channels arbitrary: st)
  case Nil
  then show ?case by simp
next
  case (Cons a channels)
  show ?case
    using Cons.IH[of "markSeen B fc a itemID st"]
      IsItemSeen_markedStorage_mono[OF assms(1) Cons.prems]
    by simp
qed

lemma markChannels_seen:
  assumes "bloom_ok B" "c \<in> set channels"
  shows "IsItemSeen B (storage (markChannels B fc itemID channels st)) (URL fc) n c itemID"
  using assms(2)
proof (induction channels arbitrary: st)
  case Nil
  then show ?case by simp
next
  case (Cons a channels)
  show ?case
  proof (cases "c = a")
    case True
    have "IsItemSeen B (storage (markSeen B fc a itemID st)) (URL fc) n c itemID"
      using True IsItemSeen_markedStorage_self[OF assms(1)] by simp
    then show ?thesis
      using markChannels_mono[OF assms(1)] by simp
  next
    case False
    then show ?thesis using Cons by simp
  qed
qed

text \<open>The events of a suppressed first run: a mark for every channel, item by item.\<close>

lemma filterItems_suppressed:
  assumes "\<not> FirstPush fc"
  shows "fst (filterItems B E fc True items seen acc st) = acc \<and>
         sends (snd (filterItems B E fc True items seen acc st)) = sends st \<and>
         trace (snd (filterItems B E fc True items seen acc st)) =
           trace st @
           concat (map (\<lambda>item. map (\<lambda>c. EvMark (URL fc) c (generateItemID E item)) (Channels fc))
                    (filter (\<lambda>item. addressable item \<and> generateItemID E item \<notin> set seen) items))"
  using assms
  by (induction items arbitrary: st)
     (auto simp: Let_def addressable_def markChannels_trace)

lemma filterItems_suppressed_mono:
  assumes "bloom_ok B" "\<not> FirstPush fc" "IsItemSeen B (storage st) f n c x"
  shows "IsItemSeen B (storage (snd (filterItems B E fc True items seen acc st))) f n c x"
  using assms(2,3)
  by (induction items arbitrary: st) (auto simp: Let_def markChannels_mono[OF assms(1)])

lemma filterItems_suppressed_seen:
  assumes "bloom_ok B" "\<not> FirstPush fc" "item \<in> set items" "addressable item"
    "generateItemID E item \<notin> set seen" "c \<in> set (Channels fc)"
  shows "IsItemSeen B (storage (snd (filterItems B E fc True items seen acc st)))
           (URL fc) n c (generateItemID E item)"
  using assms(3)
proof (induction items arbitrary: st)
  case Nil
  then show ?case by simp
next
  case (Cons a items)
  show ?case
  proof (cases "item = a")
    case True
    have m: "IsItemSeen B (storage (markChannels B fc (generateItemID E a) (Channels fc) st))
               (URL fc) n c (generateItemID E a)"
      by (rule markChannels_seen[OF assms(1,6)])
    show ?thesis
      using True assms(2,4,5) filterItems_suppressed_mono[OF assms(1,2) m]
      by (auto simp: Let_def addressable_def)
  next
    case False
    then have "item \<in> set items" using Cons.prems by simp
    then show ?thesis
      using Cons.IH assms(2) by (simp add: Let_def)
  qed
qed

text \<open>Outside a suppressed first run the candidate loop leaves the state alone and
  chooses among the fetched items.\<close>

lemma filterItems_unsuppressed:
  assumes "\<not> (firstRun \<and> \<not> FirstPush fc)"
  shows "snd (filterItems B E fc firstRun items seen acc st) = st \<and>
         set (fst (filterItems B E fc firstRun items seen acc st)) \<subseteq> set acc \<union> set items"
proof (induction items arbitrary: seen acc)
  case Nil
  show ?case by simp
next
  case (Cons a items)
  show ?case
    using assms Cons.IH[of seen acc] Cons.IH[of "generateItemID E a # seen" "acc @ [a]"]
    by (auto simp: Let_def)
qed

subsection \<open>What is sent\<close>

lemma dispatchChannels_task:
  assumes "t \<in> set (dispatchChannels B E fc s item channels)"
  shows "t_channel t \<in> set channels \<and>
         t_message t = formatMessage E item (Template fc) \<and>
         \<not> IsItemSeen B s (URL fc) (Name fc) (t_channel t) (generateItemID E item)"
  using assms
  by (induction channels) (auto simp: Let_def split: if_splits)

lemma dispatch_task:
  assumes "t \<in> set (dispatch B E fc s items)"
  shows "\<exists>item \<in> set items.
           t_channel t \<in> set (Channels fc) \<and>
           t_message t = formatMessage E item (Template fc) \<and>
           \<not> IsItemSeen B s (URL fc) (Name fc) (t_channel t) (generateItemID E item)"
  using assms dispatchChannels_task unfolding dispatch_def by fastforce

lemma retryEvents_sends:
  "EvSend c m ok \<in> set (retryEvents c' m' o0 o1 o2) \<Longrightarrow> c = c' \<and> m = m'"
  by (auto simp: retryEvents_def split: if_splits)

lemma deliver_sends:
  assumes "EvSend c m ok \<in> set (drop (length (trace st)) (trace (deliver B E fc t st)))"
  shows "c = t_channel t \<and> m = t_message t"
  using assms retryEvents_sends
  unfolding deliver_result(1) by (auto split: if_splits)

lemma deliver_trace_prefix:
  "\<exists>new. trace (deliver B E fc t st) = trace st @ new"
  unfolding deliver_result(1) by blast

lemma fold_deliver_sends:
  "\<exists>new. trace (fold (deliver B E fc) tasks st) = trace st @ new \<and>
         (\<forall>c m ok. EvSend c m ok \<in> set new \<longrightarrow> (\<exists>t \<in> set tasks. c = t_channel t \<and> m = t_message t))"
proof (induction tasks arbitrary: st)
  case Nil
  show ?case by simp
next
  case (Cons t tasks)
  obtain n1 where n1: "trace (deliver B E fc t st) = trace st @ n1"
    using deliver_trace_prefix by blast
  have s1: "\<forall>c m ok. EvSend c m ok \<in> set n1 \<longrightarrow> c = t_channel t \<and> m = t_message t"
    using deliver_sends[of _ _ _ st B E fc t] unfolding n1 by simp
  obtain n2 where n2: "trace (fold (deliver B E fc) tasks (deliver B E fc t st)) =
      trace (deliver B E fc t st) @ n2"
      "\<forall>c m ok. EvSend c m ok \<in> set n2 \<longrightarrow> (\<exists>t \<in> set tasks. c = t_channel t \<and> m = t_message t)"
    using Cons.IH[of "deliver B E fc t st"] by blast
  have "trace (fold (deliver B E fc) (t # tasks) st) = trace st @ (n1 @ n2)"
    using n1 n2(1) by simp
  moreover have "\<forall>c m ok. EvSend c m ok \<in> set (n1 @ n2) \<longrightarrow>
      (\<exists>t' \<in> set (t # tasks). c = t_channel t' \<and> m = t_message t')"
  proof (intro allI impI)
    fix c m ok
    assume "EvSend c m ok \<in> set (n1 @ n2)"
    then consider "EvSend c m ok \<in> set n1" | "EvSend c m ok \<in> set n2" by auto
    then show "\<exists>t' \<in> set (t # tasks). c = t_channel t' \<and> m = t_message t'"
    proof cases
      case 1
      then have "c = t_channel t \<and> m = t_message t" using s1 by blast
      then show ?thesis by simp
    next
      case 2
      then obtain t' where "t' \<in> set tasks" "c = t_channel t' \<and> m = t_message t'"
        using n2(2) by blast
      then show ?thesis by auto
    qed
  qed
  ultimately show ?case by blast
qed

lemma orderItems_Nil [simp]: "orderItems E [] = []"
  by (simp add: orderItems_def)

lemma dispatch_Nil [simp]: "dispatch B E fc s [] = []"
  by (simp add: dispatch_def)

lemma processFeed_suppressed:
  assumes ok: "bloom_ok B"
    and feed: "ParseURL E (URL fc) = Inr items"
    and np: "\<not> FirstPush fc"
    and first: "isFirstRun (wld st) (storage st) (URL fc) (Channels fc)"
  shows "\<exists>st'. processFeed B E fc st = (None, st') \<and> sends st' = sends st \<and>
           trace st' = trace st @
             concat (map (\<lambda>item. map (\<lambda>c. EvMark (URL fc) c (generateItemID E item)) (Channels fc))
                      (filter addressable items)) \<and>
           (\<forall>item \<in> set items. addressable item \<longrightarrow>
              (\<forall>c \<in> set (Channels fc).
                 IsItemSeen B (storage st') (URL fc) (Name fc) c (generateItemID E item)))"
proof (cases "items = []")
  case True
  then show ?thesis using feed by (simp add: processFeed_def)
next
  case False
  obtain newItems st1 where f: "filterItems B E fc True items [] [] st = (newItems, st1)"
    by (cases "filterItems B E fc True items [] [] st") auto
  have n: "newItems = []" and s: "sends st1 = sends st"
    and t: "trace st1 = trace st @
             concat (map (\<lambda>item. map (\<lambda>c. EvMark (URL fc) c (generateItemID E item)) (Channels fc))
                      (filter addressable items))"
    using filterItems_suppressed[OF np, of B E items "[]" "[]" st] f by simp_all
  have seen: "IsItemSeen B (storage st1) (URL fc) (Name fc) c (generateItemID E item)"
    if "item \<in> set items" "addressable item" "c \<in> set (Channels fc)" for item c
    using filterItems_suppressed_seen[OF ok np that(1,2) _ that(3),
            where E=E and seen="[]" and n="Name fc" and acc="[]" and st=st] f
    by simp
  have p: "processFeed B E fc st = (None, st1)"
    using feed False first f n by (simp add: processFeed_def Let_def)
  show ?thesis using p s t seen by blast
qed

lemma processFeed_sends:
  assumes srt: "sort_Slice_ok E"
    and feed: "ParseURL E (URL fc) = Inr items"
    and ev: "EvSend c m ok' \<in> set (drop (length (trace st)) (trace (snd (processFeed B E fc st))))"
  shows "\<exists>item \<in> set items.
           c \<in> set (Channels fc) \<and> m = formatMessage E item (Template fc) \<and>
           \<not> IsItemSeen B (storage st) (URL fc) (Name fc) c (generateItemID E item)"
proof (cases "items = []")
  case True
  then show ?thesis using feed ev by (simp add: processFeed_def)
next
  case False
  let ?first = "isFirstRun (wld st) (storage st) (URL fc) (Channels fc)"
  obtain newItems st1 where f: "filterItems B E fc ?first items [] [] st = (newItems, st1)"
    by (cases "filterItems B E fc ?first items [] [] st") auto
  let ?tasks = "dispatch B E fc (storage st1) (orderItems E newItems)"
  have p: "snd (processFeed B E fc st) = fold (deliver B E fc) ?tasks st1"
    using feed False f by (simp add: processFeed_def Let_def)
  obtain new where new: "trace (fold (deliver B E fc) ?tasks st1) = trace st1 @ new"
      "\<forall>c m ok. EvSend c m ok \<in> set new \<longrightarrow> (\<exists>t \<in> set ?tasks. c = t_channel t \<and> m = t_message t)"
    using fold_deliver_sends[of B E fc ?tasks st1] by blast
  show ?thesis
  proof (cases "?first \<and> \<not> FirstPush fc")
    case True
    then have "newItems = []"
      using filterItems_suppressed[of fc B E items "[]" "[]" st] f by simp
    then have e1: "snd (processFeed B E fc st) = st1" using p by simp
    obtain marks where marks: "trace st1 = trace st @ marks" "\<forall>e \<in> set marks. isMark e"
      using filterItems_suppressed[of fc B E items "[]" "[]" st] f True
      by (auto simp: isMark_def)
    have "EvSend c m ok' \<in> set marks"
      using ev unfolding e1 marks(1) by simp
    then have "isMark (EvSend c m ok')" using marks(2) by blast
    then show ?thesis by (simp add: isMark_def)
  next
    case False
    have st1: "st1 = st" and sub: "set newItems \<subseteq> set items"
      using filterItems_unsuppressed[OF False, of B E items "[]" "[]" st] f by simp_all
    have "EvSend c m ok' \<in> set new"
      using ev new(1) unfolding p st1 by simp
    then obtain t where t: "t \<in> set ?tasks" "c = t_channel t" "m = t_message t"
      using new(2) by blast
    obtain item where item: "item \<in> set (orderItems E newItems)"
        "t_channel t \<in> set (Channels fc)"
        "t_message t = formatMessage E item (Template fc)"
        "\<not> IsItemSeen B (storage st1) (URL fc) (Name fc) (t_channel t) (generateItemID E item)"
      using dispatch_task[OF t(1)] by blast
    have "item \<in> set items"
      using item(1) sub set_orderItems[OF srt, of newItems] by blast
    then show ?thesis using item t st1 by blast
  qed
qed

text \<open>
  C4 (amended). For a feed with \<open>firstPush = false\<close> for which no bucket file exists for
  any of its channels, \<open>processFeed\<close> calls \<open>MarkItemSeen\<close> for every fetched item
  that has a title or a link and every configured channel, which are then seen, and it
  sends nothing. In every cycle, a message is sent to a channel only for a fetched item
  that channel has not seen at the start of the cycle.
\<close>

theorem first_run_suppression:
  assumes ok: "bloom_ok B"
    and srt: "sort_Slice_ok E"
    and feed: "ParseURL E (URL fc) = Inr items"
  shows "(\<not> FirstPush fc \<and>
          (\<forall>c \<in> set (Channels fc).
             readFile (wld st) (GetBloomFilePath (storage st) (URL fc) c) = None) \<longrightarrow>
            (\<exists>st'. processFeed B E fc st = (None, st') \<and> sends st' = sends st \<and>
               trace st' = trace st @
                 concat (map (\<lambda>item. map (\<lambda>c. EvMark (URL fc) c (generateItemID E item)) (Channels fc))
                          (filter addressable items)) \<and>
               (\<forall>item \<in> set items. addressable item \<longrightarrow>
                  (\<forall>c \<in> set (Channels fc).
                     IsItemSeen B (storage st') (URL fc) (Name fc) c (generateItemID E item)))))
       \<and> (\<forall>c m ok'.
            EvSend c m ok' \<in> set (drop (length (trace st')) (trace (snd (processFeed B E fc st'))))
            \<longrightarrow> (\<exists>item \<in> set items.
                   c \<in> set (Channels fc) \<and> m = formatMessage E item (Template fc) \<and>
                   \<not> IsItemSeen B (storage st') (URL fc) (Name fc) c (generateItemID E item)))"
proof (intro conjI impI allI)
  assume h: "\<not> FirstPush fc \<and>
          (\<forall>c \<in> set (Channels fc).
             readFile (wld st) (GetBloomFilePath (storage st) (URL fc) c) = None)"
  then have first: "isFirstRun (wld st) (storage st) (URL fc) (Channels fc)"
    using isFirstRun_no_files by blast
  show "\<exists>st'. processFeed B E fc st = (None, st') \<and> sends st' = sends st \<and>
               trace st' = trace st @
                 concat (map (\<lambda>item. map (\<lambda>c. EvMark (URL fc) c (generateItemID E item)) (Channels fc))
                          (filter addressable items)) \<and>
               (\<forall>item \<in> set items. addressable item \<longrightarrow>
                  (\<forall>c \<in> set (Channels fc).
                     IsItemSeen B (storage st') (URL fc) (Name fc) c (generateItemID E item)))"
    using processFeed_suppressed[OF ok feed _ first] h by blast
next
  fix c m ok'
  assume "EvSend c m ok' \<in> set (drop (length (trace st')) (trace (snd (processFeed B E fc st'))))"
  then show "\<exists>item \<in> set items.
                   c \<in> set (Channels fc) \<and> m = formatMessage E item (Template fc) \<and>
                   \<not> IsItemSeen B (storage st') (URL fc) (Name fc) c (generateItemID E item)"
    by (rule processFeed_sends[OF srt feed])
qed

text \<open>
  C4 as stated fails for an item that has neither a title nor a link: the candidate loop
  skips it before the first-run branch, so it is fetched but never marked. Here the feed
  holds one such item (it has a GUID), no bucket file exists and \<open>firstPush\<close> is false:
  the cycle changes nothing and the item is not seen.
\<close>

theorem first_run_unaddressable_counterexample:
  "processFeed smallBloom (testEnv [testItem ''g1'' [] None] []) (testFeed None False) (startState 0)
     = (None, startState 0) \<and>
   \<not> IsItemSeen smallBloom (storage (startState 0)) ''F'' ''feed'' ''a'' ''g1''"
  by (simp add: processFeed_def testEnv_def testFeed_def testItem_def)

lemma markSeen_world:
  assumes "fails (wld st) = noFaults"
    and "MarshalBinary B (filter_cs (markedState B (wld st) (storage st) (URL fc) c i)) = Some filterData"
  shows "fails (wld (markSeen B fc c i st)) = noFaults"
    and "readFile (wld (markSeen B fc c i st)) (GetBloomFilePath (storage st) (URL fc) c) \<noteq> None"
proof -
  obtain r w' where s: "saveChannelState B (wld st)
        (markedStorage B (wld st) (storage st) (URL fc) c i) (URL fc) c
        (markedState B (wld st) (storage st) (URL fc) c i) = (r, w')"
    by (cases "saveChannelState B (wld st)
        (markedStorage B (wld st) (storage st) (URL fc) c i) (URL fc) c
        (markedState B (wld st) (storage st) (URL fc) c i)") auto
  have r: "r = None"
    using saveChannelState_noFaults[OF assms, of "markedStorage B (wld st) (storage st) (URL fc) c i" "URL fc" c] s
    by simp
  have w: "wld (markSeen B fc c i st) = w'"
    using s by (simp add: markSeen_def MarkItemSeen_eq)
  show "fails (wld (markSeen B fc c i st)) = noFaults"
    using saveChannelState_fields[of B "wld st" "markedStorage B (wld st) (storage st) (URL fc) c i"
        "URL fc" c "markedState B (wld st) (storage st) (URL fc) c i"] s assms(1)
    unfolding w by simp
  have p: "GetBloomFilePath (markedStorage B (wld st) (storage st) (URL fc) c i) (URL fc) c
      = GetBloomFilePath (storage st) (URL fc) c"
    by (simp add: GetBloomFilePath_def)
  show "readFile (wld (markSeen B fc c i st)) (GetBloomFilePath (storage st) (URL fc) c) \<noteq> None"
    using saveChannelState_success[OF s[unfolded r]] unfolding w p by auto
qed

text \<open>
  The witness of C4: a first cycle with one item, in an empty data directory, marks it and
  sends nothing; the second cycle, with a second item in the feed, sends that item only.
\<close>

theorem first_run_suppression_witness:
  "(let E1 = testEnv [testItem ''g1'' ''first'' None] [];
        E2 = testEnv [testItem ''g1'' ''first'' None, testItem ''item2'' ''second'' None] [];
        fc = testFeed None False;
        st1 = snd (processFeed smallBloom E1 fc (startState 0));
        st2 = snd (processFeed smallBloom E2 fc st1)
    in bloom_ok smallBloom \<and> sort_Slice_ok E1 \<and> \<not> FirstPush fc \<and>
       readFile (wld (startState 0)) (GetBloomFilePath (storage (startState 0)) (URL fc) ''a'') = None \<and>
       trace st1 = [EvMark ''F'' ''a'' ''g1''] \<and>
       sends st1 = 0 \<and>
       IsItemSeen smallBloom (storage st1) ''F'' ''feed'' ''a'' ''g1'' \<and>
       trace st2 = [EvMark ''F'' ''a'' ''g1'', EvSend ''a'' ''second'' True,
                    EvMark ''F'' ''a'' ''item2'', EvCooldown])"
proof -
  let ?i1 = "testItem ''g1'' ''first'' None"
  let ?i2 = "testItem ''item2'' ''second'' None"
  let ?E1 = "testEnv [?i1] []"
  let ?E2 = "testEnv [?i1, ?i2] []"
  let ?fc = "testFeed None False"
  let ?st0 = "startState 0"
  let ?st1 = "markSeen smallBloom ?fc ''a'' ''g1'' ?st0"
  let ?task = "\<lparr>t_channel = ''a'', t_itemID = ''item2'', t_message = ''second''\<rparr>"
  have fc: "URL ?fc = ''F''" "Name ?fc = ''feed''" "Channels ?fc = [''a'']" "\<not> FirstPush ?fc"
      "Template ?fc = []" "ArticleExpirationDurationHours ?fc = None"
    by (simp_all add: testFeed_def)
  have it: "generateItemID E ?i1 = ''g1''" "generateItemID E ?i2 = ''item2''"
      "Title ?i1 = ''first''" "Title ?i2 = ''second''"
      "PublishedParsed ?i1 = None" "PublishedParsed ?i2 = None" for E
    by (simp_all add: generateItemID_def testItem_def)
  have env: "ParseURL ?E1 u = Inr [?i1]" "ParseURL ?E2 u = Inr [?i1, ?i2]"
      "formatMessage ?E2 i t = Title i" "Send ?E2 n c m" for u i t n c m
    by (simp_all add: testEnv_def)
  have nofile: "readFile (wld ?st0) (GetBloomFilePath (storage ?st0) (URL ?fc) ''a'') = None"
    by (simp add: readFile_def)
  have p1: "processFeed smallBloom ?E1 ?fc ?st0 = (None, ?st1)"
    using nofile
    by (simp add: processFeed_def env fc it stat_ok_def Let_def del: startState_sel)
  from first_run_suppression[OF smallBloom_ok testEnv_sort_ok env(1), of ?fc ?st0]
  have a: "\<exists>st'. processFeed smallBloom ?E1 ?fc ?st0 = (None, st') \<and> sends st' = sends ?st0 \<and>
               trace st' = trace ?st0 @
                 concat (map (\<lambda>item. map (\<lambda>c. EvMark (URL ?fc) c (generateItemID ?E1 item)) (Channels ?fc))
                          (filter addressable [?i1])) \<and>
               (\<forall>item \<in> set [?i1]. addressable item \<longrightarrow>
                  (\<forall>c \<in> set (Channels ?fc).
                     IsItemSeen smallBloom (storage st') (URL ?fc) (Name ?fc) c (generateItemID ?E1 item)))"
    using nofile fc(3,4) by simp
  have ad: "addressable ?i1" by (simp add: addressable_def testItem_def)
  have t1: "trace ?st1 = [EvMark ''F'' ''a'' ''g1'']" and s1: "sends ?st1 = 0"
    and seen1: "IsItemSeen smallBloom (storage ?st1) ''F'' ''feed'' ''a'' ''g1''"
    using a unfolding p1 by (simp_all add: fc it ad)
  have sto: "lookupState (storage ?st1) ''F'' ''a'' = Some \<lparr>filter_cs = {2, 5}, updatedAt = 0\<rparr>"
    by (auto simp: fc lookupState_markedStorage markedState_def smallBloom_def positions_smallBloom)
  have unseen2: "\<not> IsItemSeen smallBloom (storage ?st1) ''F'' ''feed'' ''a'' ''item2''"
    unfolding IsItemSeen_lookup sto by (simp add: smallBloom_def positions_smallBloom)
  have w1: "readFile (wld ?st1) (GetBloomFilePath (storage ?st0) (URL ?fc) ''a'') \<noteq> None"
      "fails (wld ?st1) = noFaults"
    using markSeen_world[of ?st0 smallBloom ?fc "''a''" "''g1''"]
    by (simp_all add: smallBloom_def)
  have path: "GetBloomFilePath (storage ?st1) ''F'' ''a'' = GetBloomFilePath (storage ?st0) (URL ?fc) ''a''"
    by (simp add: GetBloomFilePath_def fc)
  have notfirst: "\<not> isFirstRun (wld ?st1) (storage ?st1) ''F'' [''a'']"
    using w1 unfolding isFirstRun.simps path stat_ok_def by (simp add: noFaults_def)
  have f2: "filterItems smallBloom ?E2 ?fc False [?i1, ?i2] [] [] ?st1 = ([?i2], ?st1)"
    using seen1 unseen2
    by (simp add: fc it isStale_def Let_def del: markSeen_fields)
  have d2: "dispatch smallBloom ?E2 ?fc (storage ?st1) (orderItems ?E2 [?i2]) = [?task]"
    using unseen2
    by (simp add: dispatch_def orderItems_def fc it env Let_def del: markSeen_fields)
  have p2: "snd (processFeed smallBloom ?E2 ?fc ?st1) = deliver smallBloom ?E2 ?fc ?task ?st1"
    using notfirst
    by (simp add: processFeed_def env fc f2 d2 Let_def
          del: markSeen_fields isFirstRun.simps filterItems.simps)
  have t2: "trace (deliver smallBloom ?E2 ?fc ?task ?st1) =
      [EvMark ''F'' ''a'' ''g1'', EvSend ''a'' ''second'' True, EvMark ''F'' ''a'' ''item2'', EvCooldown]"
    unfolding deliver_result(1) using t1 s1
    by (simp add: env retryEvents_def fc del: markSeen_fields)
  have r: "snd (processFeed smallBloom ?E1 ?fc ?st0) = ?st1"
    unfolding p1 by simp
  show ?thesis
    unfolding Let_def r p2 t2
    using smallBloom_ok testEnv_sort_ok fc(4) nofile t1 s1 seen1
    by (simp only: simp_thms)
qed

end
